theory Spec2Isabelle
  imports Main "HOL-Library.Word"
begin

unbundle bit_operations_syntax

section \<open>Machine types\<close>

type_synonym u8 = "8 word"
type_synonym u32 = "32 word"
type_synonym u64 = "64 word"

text \<open>
  A C \<^verbatim>\<open>int\<close> is 32 bits wide. Signed overflow is undefined behaviour, so an
  addition whose mathematical result leaves this range has no value in the model.
\<close>

definition int_range :: "int \<Rightarrow> bool" where
  "int_range x = (- 2147483648 \<le> x \<and> x \<le> 2147483647)"

section \<open>Backing storage\<close>

text \<open>
  Modelled from the spec: the type \<^verbatim>\<open>x16file\<close> of \<^verbatim>\<open>files.h\<close>, which is not among
  the sources. The spec describes the backing storage as a file-like block image that
  is opened, sought, read, written and sized; it is modelled as the bytes of the image
  and the current offset.
\<close>

record x16file =
  contents :: "u8 list"
  offset :: nat

text \<open>
  Modelled from the spec: \<^verbatim>\<open>x16size\<close> (\<^verbatim>\<open>files.h\<close>, not among the sources), the
  \<^verbatim>\<open>size(handle) -> bytes\<close> of the spec.
\<close>

definition x16size :: "x16file \<Rightarrow> nat" where
  "x16size f = length (contents f)"

text \<open>
  Modelled from the spec: \<^verbatim>\<open>x16seek\<close> with \<^verbatim>\<open>XSEEK_SET\<close> (\<^verbatim>\<open>files.h\<close>, not among the
  sources), the \<^verbatim>\<open>seek(handle, offset)\<close> of the spec.
\<close>

definition x16seek :: "x16file \<Rightarrow> nat \<Rightarrow> x16file" where
  "x16seek f off = f\<lparr>offset := off\<rparr>"

text \<open>
  Modelled from the spec: \<^verbatim>\<open>x16read\<close> (\<^verbatim>\<open>files.h\<close>, not among the sources), the
  \<^verbatim>\<open>read(handle, buffer, length) -> bytes_read\<close> of the spec. It returns the bytes
  available from the offset, at most \<open>n\<close> of them, and moves the offset past them.
\<close>

definition x16read :: "x16file \<Rightarrow> nat \<Rightarrow> u8 list \<times> x16file" where
  "x16read f n =
     (let bytes = take n (drop (offset f) (contents f))
      in (bytes, f\<lparr>offset := offset f + length bytes\<rparr>))"

text \<open>
  Modelled from the spec: \<^verbatim>\<open>x16write\<close> (\<^verbatim>\<open>files.h\<close>, not among the sources), the
  \<^verbatim>\<open>write(handle, buffer, length) -> bytes_written\<close> of the spec. It stores all its
  bytes at the offset, replacing what was there and extending the image where it runs
  past the end (padding with zeros after a seek beyond the end), and moves the offset
  past them. The number of bytes written, which the card code only compares with 512
  to print a warning, is not returned.
\<close>

definition x16write :: "x16file \<Rightarrow> u8 list \<Rightarrow> x16file" where
  "x16write f bytes =
     f\<lparr>contents := take (offset f) (contents f)
                     @ replicate (offset f - length (contents f)) 0
                     @ bytes
                     @ drop (offset f + length bytes) (contents f),
       offset := offset f + length bytes\<rparr>"

section \<open>The SD card (Card Protocol Engine)\<close>

text \<open>MMC/SD commands in SPI mode; an ACMD carries the marker bit \<open>0x80\<close>.\<close>

definition CMD0 :: u8 where "CMD0 = 0"
definition CMD8 :: u8 where "CMD8 = 8"
definition ACMD41 :: u8 where "ACMD41 = 0x80 OR 41"
definition CMD13 :: u8 where "CMD13 = 13"
definition CMD16 :: u8 where "CMD16 = 16"
definition CMD17 :: u8 where "CMD17 = 17"
definition CMD24 :: u8 where "CMD24 = 24"
definition CMD55 :: u8 where "CMD55 = 55"
definition CMD58 :: u8 where "CMD58 = 58"

text \<open>
  \<^verbatim>\<open>response\<close> is a pointer, either null or the address of one of the static
  response arrays. The arrays \<^verbatim>\<open>r1\<close> and \<^verbatim>\<open>read_block_response\<close> are mutable and
  live in the state; the others are constant.
\<close>

datatype resp_ptr =
  Nullptr | R1 | R2_initialized | R2_uninitialized | R3 | R7 | Read_block_response

text \<open>
  The file-scope and function-scope statics of the SD card code. The counters
  \<^verbatim>\<open>rxbuf_idx\<close>, \<^verbatim>\<open>response_length\<close> and \<^verbatim>\<open>response_counter\<close> are C ints that are
  only ever reset to a non-negative constant or incremented, hence \<open>nat\<close>.
  \<^verbatim>\<open>rxbuf\<close> has \<open>3 + 512 = 515\<close> bytes and \<^verbatim>\<open>read_block_response\<close> has
  \<open>2 + 512 + 2 = 516\<close>.
\<close>

record sdcard =
  sdcard_file :: "x16file option"
  sdcard_attached :: bool
  rxbuf :: "u8 list"
  rxbuf_idx :: nat
  lba :: u32
  last_cmd :: u8
  is_acmd :: bool
  is_idle :: bool
  is_initialized :: bool
  response :: resp_ptr
  response_length :: nat
  response_counter :: nat
  selected :: bool
  r1 :: u8
  read_block_response :: "u8 list"

definition sdcard_boot :: sdcard where
  "sdcard_boot =
     \<lparr>sdcard_file = None, sdcard_attached = False,
      rxbuf = replicate (3 + 512) 0, rxbuf_idx = 0, lba = 0, last_cmd = 0,
      is_acmd = False, is_idle = True, is_initialized = False,
      response = Nullptr, response_length = 0, response_counter = 0,
      selected = False, r1 = 0, read_block_response = replicate (2 + 512 + 2) 0\<rparr>"

text \<open>
  \<^verbatim>\<open>sdcard_attach\<close>: \<open>path_is_set\<close> is the outcome of \<^verbatim>\<open>sdcard_path_is_set\<close> and
  \<open>opened\<close> that of \<^verbatim>\<open>x16open\<close> on the configured path (\<open>None\<close>: the image cannot
  be opened).
\<close>

definition sdcard_attach :: "bool \<Rightarrow> x16file option \<Rightarrow> sdcard \<Rightarrow> sdcard" where
  "sdcard_attach path_is_set opened c =
     (if \<not> sdcard_attached c \<and> path_is_set then
        (case opened of
           None \<Rightarrow> c\<lparr>sdcard_file := None\<rparr>
         | Some f \<Rightarrow> c\<lparr>sdcard_file := Some f, sdcard_attached := True,
                       is_initialized := False\<rparr>)
      else c)"

definition sdcard_detach :: "sdcard \<Rightarrow> sdcard" where
  "sdcard_detach c =
     (if sdcard_attached c then c\<lparr>sdcard_file := None, sdcard_attached := False\<rparr>
      else c)"

definition sdcard_is_attached :: "sdcard \<Rightarrow> bool" where
  "sdcard_is_attached c = (sdcard_file c \<noteq> None \<and> sdcard_attached c)"

definition sdcard_select :: "bool \<Rightarrow> sdcard \<Rightarrow> sdcard" where
  "sdcard_select select c = c\<lparr>selected := select, rxbuf_idx := 0\<rparr>"

definition set_response_r1 :: "sdcard \<Rightarrow> sdcard" where
  "set_response_r1 c =
     c\<lparr>r1 := (if is_idle c then 1 else 0), response := R1, response_length := 1\<rparr>"

definition set_response_r2 :: "sdcard \<Rightarrow> sdcard" where
  "set_response_r2 c =
     (if is_initialized c then c\<lparr>response := R2_initialized, response_length := 2\<rparr>
      else c\<lparr>response := R2_uninitialized, response_length := 2\<rparr>)"

definition set_response_r3 :: "sdcard \<Rightarrow> sdcard" where
  "set_response_r3 c = c\<lparr>response := R3, response_length := 4\<rparr>"

definition set_response_r7 :: "sdcard \<Rightarrow> sdcard" where
  "set_response_r7 c = c\<lparr>response := R7, response_length := 5\<rparr>"

text \<open>The array a response pointer points to (none for the null pointer).\<close>

fun response_array :: "sdcard \<Rightarrow> resp_ptr \<Rightarrow> u8 list" where
  "response_array c Nullptr = []"
| "response_array c R1 = [r1 c]"
| "response_array c R2_initialized = [0x00, 0x00]"
| "response_array c R2_uninitialized = [0x1F, 0xFF]"
| "response_array c R3 = [0xC0, 0xFF, 0x80, 0x00]"
| "response_array c R7 = [1, 0x00, 0x00, 0x01, 0xAA]"
| "response_array c Read_block_response = read_block_response c"

text \<open>
  The block address of a command frame:
  \<^verbatim>\<open>(rxbuf[1] << 24) | (rxbuf[2] << 16) | (rxbuf[3] << 8) | rxbuf[4]\<close>, stored in a
  \<^verbatim>\<open>uint32_t\<close>.
\<close>

definition frame_lba :: "u8 list \<Rightarrow> u32" where
  "frame_lba buf =
     push_bit 24 (ucast (buf ! 1)) OR push_bit 16 (ucast (buf ! 2))
       OR push_bit 8 (ucast (buf ! 3)) OR ucast (buf ! 4)"

text \<open>
  \<^verbatim>\<open>case CMD17\<close> of the command switch. Its \<^verbatim>\<open>lba\<close> is a local variable that
  shadows the file-scope one, which keeps its value. A short read overwrites only the
  bytes that were read.
\<close>

definition read_single_block :: "x16file \<Rightarrow> sdcard \<Rightarrow> sdcard" where
  "read_single_block f c =
     (let lba' = frame_lba (rxbuf c);
          c1 = c\<lparr>read_block_response := (read_block_response c)[0 := 0, 1 := 0xFE]\<rparr>;
          c2 = (if x16size f \<le> unat lba' * 512 then
                  c1\<lparr>read_block_response := (read_block_response c1)[1 := 0x08],
                     response_length := 2\<rparr>
                else
                  (let (bytes, f') = x16read (x16seek f (unat lba' * 512)) 512
                   in c1\<lparr>sdcard_file := Some f',
                         read_block_response :=
                           take 2 (read_block_response c1) @ bytes
                             @ drop (2 + length bytes) (read_block_response c1),
                         response := Read_block_response,
                         response_length := 2 + 512 + 2\<rparr>))
      in c2\<lparr>response := Read_block_response, response_length := 2 + 512 + 2\<rparr>)"

text \<open>The \<^verbatim>\<open>switch (rxbuf[0])\<close> of \<^verbatim>\<open>sdcard_handle\<close>.\<close>

definition command_switch :: "x16file \<Rightarrow> sdcard \<Rightarrow> sdcard" where
  "command_switch f c =
     (let cmd = rxbuf c ! 0 in
      if cmd = CMD0 then set_response_r1 (c\<lparr>is_idle := True\<rparr>)
      else if cmd = CMD8 then set_response_r7 c
      else if cmd = ACMD41 then
        set_response_r1 (c\<lparr>is_idle := False, is_initialized := True\<rparr>)
      else if cmd = CMD13 then set_response_r2 c
      else if cmd = CMD16 then set_response_r1 c
      else if cmd = CMD17 then read_single_block f c
      else if cmd = CMD24 then set_response_r1 (c\<lparr>lba := frame_lba (rxbuf c)\<rparr>)
      else if cmd = CMD55 then set_response_r1 (c\<lparr>is_acmd := True\<rparr>)
      else if cmd = CMD58 then set_response_r3 c
      else set_response_r1 c)"

text \<open>
  The body run when a command frame is complete (six bytes buffered, start and
  transmission bits \<open>01\<close>), with the byte returned by \<^verbatim>\<open>sdcard_handle\<close>.
\<close>

definition command_frame :: "x16file \<Rightarrow> sdcard \<Rightarrow> u8 \<times> sdcard" where
  "command_frame f c =
     (let c1 = c\<lparr>rxbuf_idx := 0\<rparr> in
      if (rxbuf c1 ! 0) AND 0xC0 \<noteq> 0x40 then (0xFF, c1\<lparr>response := Nullptr\<rparr>)
      else
        (let c2 = c1\<lparr>rxbuf := (rxbuf c1)[0 := (rxbuf c1 ! 0) AND 0x3F]\<rparr>;
             c3 = (if is_acmd c2
                   then c2\<lparr>rxbuf := (rxbuf c2)[0 := (rxbuf c2 ! 0) OR 0x80],
                           is_acmd := False\<rparr>
                   else c2);
             c4 = c3\<lparr>last_cmd := rxbuf c3 ! 0\<rparr>;
             c5 = command_switch f c4
         in (0xFF, c5\<lparr>response_counter := 0\<rparr>)))"

text \<open>The body run when 515 bytes are buffered: the data frame of a block write.\<close>

definition data_frame :: "x16file \<Rightarrow> sdcard \<Rightarrow> sdcard" where
  "data_frame f c =
     (let c1 = c\<lparr>rxbuf_idx := 0\<rparr> in
      if last_cmd c1 = CMD24 \<and> rxbuf c1 ! 0 = 0xFE then
        (if x16size f \<le> unat (lba c1) * 512 then c1
         else c1\<lparr>sdcard_file :=
                    Some (x16write (x16seek f (unat (lba c1) * 512))
                            (take 512 (drop 1 (rxbuf c1))))\<rparr>)
      else c1)"

text \<open>
  \<^verbatim>\<open>sdcard_handle\<close>: one byte in, one byte out. The result is \<open>None\<close> where the C
  code would index an array outside its bounds (\<^verbatim>\<open>response[response_counter]\<close> or
  \<^verbatim>\<open>rxbuf[rxbuf_idx]\<close>).
\<close>

definition sdcard_handle :: "u8 \<Rightarrow> sdcard \<Rightarrow> (u8 \<times> sdcard) option" where
  "sdcard_handle inbyte c =
     (case sdcard_file c of
        None \<Rightarrow> Some (0xFF, c)
      | Some f \<Rightarrow>
          if \<not> selected c then Some (0xFF, c)
          else if rxbuf_idx c = 0 \<and> inbyte = 0xFF then
            (if response c \<noteq> Nullptr then
               (if response_counter c < length (response_array c (response c)) then
                  (let outbyte = response_array c (response c) ! response_counter c;
                       c1 = c\<lparr>response_counter := response_counter c + 1\<rparr>
                   in Some (outbyte,
                            if response_counter c1 = response_length c1
                            then c1\<lparr>response := Nullptr\<rparr> else c1))
                else None)
             else Some (0xFF, c))
          else if rxbuf_idx c < 515 then
            (let c1 = c\<lparr>rxbuf := (rxbuf c)[rxbuf_idx c := inbyte],
                       rxbuf_idx := rxbuf_idx c + 1\<rparr>
             in if (rxbuf c1 ! 0) AND 0xC0 = 0x40 \<and> rxbuf_idx c1 = 6
                then Some (command_frame f c1)
                else if rxbuf_idx c1 = 515 then Some (0xFF, data_frame f c1)
                else Some (0xFF, c1))
          else None)"

section \<open>The SPI registers (Serial Transfer Engine)\<close>

text \<open>
  The globals of the SPI code, the static \<^verbatim>\<open>clocks\<close> of \<^verbatim>\<open>vera_spi_autostep\<close>, and
  the card behind the bus.
\<close>

record vera_spi =
  ss :: bool
  busy :: bool
  autotx :: bool
  sending_byte :: u8
  received_byte :: u8
  outcounter :: int
  clocks :: u64
  sd_card :: sdcard

definition vera_spi_init :: "vera_spi \<Rightarrow> vera_spi" where
  "vera_spi_init s = s\<lparr>ss := False, busy := False, autotx := False, received_byte := 0xFF\<rparr>"

definition vera_spi_boot :: vera_spi where
  "vera_spi_boot =
     vera_spi_init
       \<lparr>ss = False, busy = False, autotx = False, sending_byte = 0, received_byte = 0,
        outcounter = 0, clocks = 0, sd_card = sdcard_boot\<rparr>"

text \<open>
  \<^verbatim>\<open>vera_spi_step\<close>. The result is \<open>None\<close> where \<^verbatim>\<open>outcounter += clocks\<close> overflows
  or where the card code leaves the bounds of an array.
\<close>

definition vera_spi_step :: "int \<Rightarrow> vera_spi \<Rightarrow> vera_spi option" where
  "vera_spi_step n s =
     (if busy s then
        (if int_range (outcounter s + n) then
           (let s1 = s\<lparr>outcounter := outcounter s + n\<rparr> in
            if 8 \<le> outcounter s1 then
              (let s2 = s1\<lparr>busy := False\<rparr> in
               if sdcard_is_attached (sd_card s2) then
                 (case sdcard_handle (sending_byte s2) (sd_card s2) of
                    None \<Rightarrow> None
                  | Some (b, c') \<Rightarrow> Some (s2\<lparr>received_byte := b, sd_card := c'\<rparr>))
               else Some (s2\<lparr>received_byte := 0xFF\<rparr>))
            else Some s1)
         else None)
      else Some s)"

text \<open>
  The transfer that \<^verbatim>\<open>vera_spi_step\<close> performs on completion,
  \<^verbatim>\<open>received_byte = sdcard_is_attached() ? sdcard_handle(sending_byte) : 0xFF\<close>: the
  byte received and the card afterwards.
\<close>

definition deliver :: "vera_spi \<Rightarrow> (u8 \<times> sdcard) option" where
  "deliver s =
     (if sdcard_is_attached (sd_card s) then sdcard_handle (sending_byte s) (sd_card s)
      else Some (0xFF, sd_card s))"

text \<open>
  \<^verbatim>\<open>(int)(clockticks6502 - clocks)\<close>: the difference of two readings of the CPU's
  cycle counter is taken in 64 bits and converted to \<^verbatim>\<open>int\<close>, which keeps its low
  32 bits as a two's complement number.
\<close>

definition ticks_since :: "u64 \<Rightarrow> u64 \<Rightarrow> int" where
  "ticks_since seen now = sint (ucast (now - seen) :: u32)"

text \<open>
  \<^verbatim>\<open>vera_spi_autostep\<close>: \<open>now\<close> is the value of \<^verbatim>\<open>clockticks6502\<close> at the call.
\<close>

definition vera_spi_autostep :: "u64 \<Rightarrow> vera_spi \<Rightarrow> vera_spi option" where
  "vera_spi_autostep now s =
     (case vera_spi_step (ticks_since (clocks s) now) s of
        None \<Rightarrow> None
      | Some s1 \<Rightarrow> Some (s1\<lparr>clocks := now\<rparr>))"

text \<open>The status byte \<^verbatim>\<open>busy << 7 | autotx << 2 | (ss ? 1 : 0)\<close>.\<close>

definition status_byte :: "vera_spi \<Rightarrow> u8" where
  "status_byte s =
     (if busy s then 0x80 else 0) OR (if autotx s then 4 else 0) OR (if ss s then 1 else 0)"

definition debug_vera_spi_read :: "u8 \<Rightarrow> vera_spi \<Rightarrow> u8" where
  "debug_vera_spi_read reg s =
     (if reg = 0 then received_byte s else if reg = 1 then status_byte s else 0)"

definition vera_spi_read :: "u8 \<Rightarrow> u64 \<Rightarrow> vera_spi \<Rightarrow> (u8 \<times> vera_spi) option" where
  "vera_spi_read reg now s =
     (case vera_spi_autostep now s of
        None \<Rightarrow> None
      | Some s1 \<Rightarrow>
          if reg = 0 then
            Some (received_byte s1,
                  if autotx s1 \<and> ss s1 \<and> \<not> busy s1
                  then s1\<lparr>sending_byte := 0xFF, busy := True, outcounter := 0\<rparr>
                  else s1)
          else if reg = 1 then Some (status_byte s1, s1)
          else Some (0, s1))"

definition vera_spi_write :: "u8 \<Rightarrow> u8 \<Rightarrow> u64 \<Rightarrow> vera_spi \<Rightarrow> vera_spi option" where
  "vera_spi_write reg v now s =
     (case vera_spi_autostep now s of
        None \<Rightarrow> None
      | Some s1 \<Rightarrow>
          if reg = 0 then
            Some (if ss s1 \<and> \<not> busy s1
                  then s1\<lparr>sending_byte := v, busy := True, outcounter := 0\<rparr>
                  else s1)
          else if reg = 1 then
            (let s2 = (if ss s1 \<noteq> (v AND 1 \<noteq> 0) then
                         (let s' = s1\<lparr>ss := (v AND 1 \<noteq> 0)\<rparr>
                          in if ss s' then s'\<lparr>sd_card := sdcard_select (ss s') (sd_card s')\<rparr>
                             else s')
                       else s1)
             in Some (s2\<lparr>autotx := (v AND 4 \<noteq> 0)\<rparr>))
          else Some s1)"

section \<open>Driving the card and well-formed states\<close>

text \<open>
  The bytes of successive transfers handed to \<^verbatim>\<open>sdcard_handle\<close> one after the other,
  with the bytes it returns.
\<close>

fun sdcard_transfer :: "u8 list \<Rightarrow> sdcard \<Rightarrow> (u8 list \<times> sdcard) option" where
  "sdcard_transfer [] c = Some ([], c)"
| "sdcard_transfer (b # bs) c =
     (case sdcard_handle b c of
        None \<Rightarrow> None
      | Some (out, c1) \<Rightarrow>
          (case sdcard_transfer bs c1 of
             None \<Rightarrow> None
           | Some (outs, c2) \<Rightarrow> Some (out # outs, c2)))"

text \<open>
  The states the code keeps itself in: the arrays have their declared sizes, the
  receive cursor is inside \<^verbatim>\<open>rxbuf\<close>, and a pending response has bytes left to send
  and the length of the array it points to.
\<close>

definition sd_wf :: "sdcard \<Rightarrow> bool" where
  "sd_wf c =
     (length (rxbuf c) = 515 \<and> length (read_block_response c) = 516 \<and> rxbuf_idx c < 515 \<and>
      (response c \<noteq> Nullptr \<longrightarrow>
         response_counter c < response_length c \<and>
         response_length c = length (response_array c (response c))))"

text \<open>
  The command index on which a complete command frame is dispatched: the low six bits
  of its first byte, with the marker bit when an application command is pending.
\<close>

definition dispatched :: "sdcard \<Rightarrow> u8" where
  "dispatched c = (rxbuf c ! 0 AND 0x3F) OR (if is_acmd c then 0x80 else 0)"

text \<open>
  The state in which the command switch runs once the six bytes \<open>frame\<close> have arrived
  at a clean cursor.
\<close>

definition after_frame :: "u8 list \<Rightarrow> sdcard \<Rightarrow> sdcard" where
  "after_frame frame c =
     (let cmd = (hd frame AND 0x3F) OR (if is_acmd c then 0x80 else 0)
      in c\<lparr>rxbuf_idx := 0, rxbuf := (cmd # tl frame) @ drop 6 (rxbuf c),
           is_acmd := False, last_cmd := cmd\<rparr>)"

text \<open>
  A card with an image of two blocks attached (the first filled with \<open>0x11\<close>, the
  second with \<open>0x22\<close>), selected by the host.
\<close>

definition image_example :: x16file where
  "image_example = \<lparr>contents = replicate 512 0x11 @ replicate 512 0x22, offset = 0\<rparr>"

definition card_example :: sdcard where
  "card_example = sdcard_select True (sdcard_attach True (Some image_example) sdcard_boot)"

section \<open>Driving the registers\<close>

text \<open>Successive calls of \<^verbatim>\<open>vera_spi_step\<close>, each with its number of ticks.\<close>

fun vera_spi_steps :: "int list \<Rightarrow> vera_spi \<Rightarrow> vera_spi option" where
  "vera_spi_steps [] s = Some s"
| "vera_spi_steps (n # ns) s =
     (case vera_spi_step n s of None \<Rightarrow> None | Some s1 \<Rightarrow> vera_spi_steps ns s1)"

text \<open>
  The number of calls in such a run that complete a transfer, that is, that find
  \<^verbatim>\<open>busy\<close> set and clear it (the only branch of \<^verbatim>\<open>vera_spi_step\<close> that does so is
  the one that hands the byte to the card).
\<close>

fun completions :: "int list \<Rightarrow> vera_spi \<Rightarrow> nat" where
  "completions [] s = 0"
| "completions (n # ns) s =
     (case vera_spi_step n s of
        None \<Rightarrow> 0
      | Some s1 \<Rightarrow> (if busy s \<and> \<not> busy s1 then 1 else 0) + completions ns s1)"

text \<open>
  The states the register code keeps itself in when time does not run backwards: the
  card is well formed and a transfer in flight has fewer than 8 ticks on its counter.
\<close>

definition spi_wf :: "vera_spi \<Rightarrow> bool" where
  "spi_wf s = (sd_wf (sd_card s) \<and> (busy s \<longrightarrow> 0 \<le> outcounter s \<and> outcounter s < 8))"

text \<open>
  Register accesses of the host, each with the value of \<^verbatim>\<open>clockticks6502\<close> at the
  access; the bytes read are dropped.
\<close>

datatype access = Read u8 | Write u8 u8

fun vera_spi_run :: "(u64 \<times> access) list \<Rightarrow> vera_spi \<Rightarrow> vera_spi option" where
  "vera_spi_run [] s = Some s"
| "vera_spi_run ((now, Read reg) # rest) s =
     (case vera_spi_read reg now s of None \<Rightarrow> None | Some (b, s1) \<Rightarrow> vera_spi_run rest s1)"
| "vera_spi_run ((now, Write reg v) # rest) s =
     (case vera_spi_write reg v now s of None \<Rightarrow> None | Some s1 \<Rightarrow> vera_spi_run rest s1)"

text \<open>
  The registers after start-up with the example image attached, and the state two
  writes later: card selected, transfer of \<open>0x40\<close> just started.
\<close>

definition spi_example :: vera_spi where
  "spi_example = vera_spi_boot\<lparr>sd_card := sdcard_attach True (Some image_example) sdcard_boot\<rparr>"

definition spi_started :: vera_spi where
  "spi_started = spi_example\<lparr>ss := True, busy := True, sending_byte := 0x40, sd_card := card_example\<rparr>"

text \<open>
  The registers after three bytes of a command frame (\<open>0x40\<close>, \<open>0x00\<close>, \<open>0x00\<close>)
  have been transferred to the selected example card and the third transfer has been
  seen to complete, at tick 24.
\<close>

definition spi_partial :: vera_spi where
  "spi_partial =
     spi_example\<lparr>ss := True, sending_byte := 0x00, received_byte := 0xFF, outcounter := 8,
                   clocks := 24,
                   sd_card := card_example\<lparr>rxbuf := (rxbuf card_example)[0 := 0x40, 1 := 0x00, 2 := 0x00],
                                            rxbuf_idx := 3\<rparr>\<rparr>"

section \<open>Well-formed states are preserved\<close>

lemma response_array_cong:
  "r1 c' = r1 c \<Longrightarrow> read_block_response c' = read_block_response c \<Longrightarrow>
   response_array c' p = response_array c p"
  by (cases p) simp_all

lemma response_array_update [simp]:
  "response_array (c\<lparr>sdcard_file := x1\<rparr>) p = response_array c p"
  "response_array (c\<lparr>sdcard_attached := x2\<rparr>) p = response_array c p"
  "response_array (c\<lparr>rxbuf := x3\<rparr>) p = response_array c p"
  "response_array (c\<lparr>rxbuf_idx := x4\<rparr>) p = response_array c p"
  "response_array (c\<lparr>lba := x5\<rparr>) p = response_array c p"
  "response_array (c\<lparr>last_cmd := x6\<rparr>) p = response_array c p"
  "response_array (c\<lparr>is_acmd := x7\<rparr>) p = response_array c p"
  "response_array (c\<lparr>is_idle := x8\<rparr>) p = response_array c p"
  "response_array (c\<lparr>is_initialized := x9\<rparr>) p = response_array c p"
  "response_array (c\<lparr>response := x10\<rparr>) p = response_array c p"
  "response_array (c\<lparr>response_length := x11\<rparr>) p = response_array c p"
  "response_array (c\<lparr>response_counter := x12\<rparr>) p = response_array c p"
  "response_array (c\<lparr>selected := x13\<rparr>) p = response_array c p"
  by (rule response_array_cong; simp)+

lemma sdcard_transfer_append:
  "sdcard_transfer (xs @ ys) c =
     (case sdcard_transfer xs c of
        None \<Rightarrow> None
      | Some (o1, c1) \<Rightarrow>
          (case sdcard_transfer ys c1 of
             None \<Rightarrow> None
           | Some (o2, c2) \<Rightarrow> Some (o1 @ o2, c2)))"
  by (induction xs arbitrary: c) (auto split: option.splits)

lemma length_x16read: "length (fst (x16read f n)) \<le> n"
  by (simp add: x16read_def Let_def)

lemma read_single_block_wf:
  assumes "sd_wf c"
  shows "sd_wf ((read_single_block f c)\<lparr>response_counter := 0\<rparr>)"
  using assms length_x16read[of "x16seek f (unat (frame_lba (rxbuf c)) * 512)" 512]
  by (auto simp: sd_wf_def read_single_block_def Let_def split: prod.splits)

lemma command_switch_wf:
  assumes "sd_wf c"
  shows "sd_wf ((command_switch f c)\<lparr>response_counter := 0\<rparr>)"
proof (cases "rxbuf c ! 0 = CMD17")
  case True
  then show ?thesis using read_single_block_wf[OF assms, of f]
    by (simp add: command_switch_def CMD17_def CMD0_def CMD8_def ACMD41_def CMD13_def CMD16_def)
next
  case False
  then show ?thesis using assms
    by (auto simp: command_switch_def Let_def sd_wf_def
        set_response_r1_def set_response_r2_def set_response_r3_def set_response_r7_def)
qed

lemma sd_wf_update_frame:
  "sd_wf c \<Longrightarrow> length buf = 515 \<Longrightarrow>
   sd_wf (c\<lparr>rxbuf_idx := 0, rxbuf := buf, is_acmd := a, last_cmd := l\<rparr>)"
  "sd_wf c \<Longrightarrow> length buf = 515 \<Longrightarrow>
   sd_wf (c\<lparr>rxbuf_idx := 0, rxbuf := buf, last_cmd := l\<rparr>)"
  by (auto simp: sd_wf_def)

lemma command_frame_wf:
  assumes "sd_wf c"
  shows "sd_wf (snd (command_frame f c))"
proof (cases "(rxbuf c ! 0) AND 0xC0 \<noteq> 0x40")
  case True
  then show ?thesis using assms
    by (simp add: command_frame_def Let_def sd_wf_def)
next
  case False
  have len: "length (rxbuf c) = 515" using assms by (simp add: sd_wf_def)
  show ?thesis using False
    by (auto simp: command_frame_def Let_def len
        intro!: command_switch_wf sd_wf_update_frame[OF assms])
qed

lemma data_frame_wf:
  assumes "sd_wf (c\<lparr>rxbuf_idx := 0\<rparr>)"
  shows "sd_wf (data_frame f c)"
  using assms
  by (auto simp: data_frame_def Let_def sd_wf_def)

lemma sd_wf_buffer:
  "sd_wf c \<Longrightarrow> i < 515 \<Longrightarrow> sd_wf (c\<lparr>rxbuf := (rxbuf c)[k := b], rxbuf_idx := i\<rparr>)"
  by (auto simp: sd_wf_def)

lemma sd_wf_drain:
  "sd_wf c \<Longrightarrow> response c \<noteq> Nullptr \<Longrightarrow>
   sd_wf (if Suc (response_counter c) = response_length c
          then c\<lparr>response_counter := Suc (response_counter c), response := Nullptr\<rparr>
          else c\<lparr>response_counter := Suc (response_counter c)\<rparr>)"
  by (auto simp: sd_wf_def)

lemma sdcard_handle_off:
  "sdcard_file c = None \<or> \<not> selected c \<Longrightarrow> sdcard_handle b c = Some (0xFF, c)"
  by (auto simp: sdcard_handle_def split: option.splits)

lemma sdcard_handle_idle:
  "sdcard_file c = Some f \<Longrightarrow> selected c \<Longrightarrow> rxbuf_idx c = 0 \<Longrightarrow> response c = Nullptr \<Longrightarrow>
   sdcard_handle 0xFF c = Some (0xFF, c)"
  by (simp add: sdcard_handle_def)

lemma sdcard_handle_drain:
  "sdcard_file c = Some f \<Longrightarrow> selected c \<Longrightarrow> rxbuf_idx c = 0 \<Longrightarrow> response c \<noteq> Nullptr \<Longrightarrow>
   response_counter c < length (response_array c (response c)) \<Longrightarrow>
   sdcard_handle 0xFF c =
     Some (response_array c (response c) ! response_counter c,
           if Suc (response_counter c) = response_length c
           then c\<lparr>response_counter := Suc (response_counter c), response := Nullptr\<rparr>
           else c\<lparr>response_counter := Suc (response_counter c)\<rparr>)"
  by (simp add: sdcard_handle_def Let_def)

lemma sdcard_handle_buffer:
  "sdcard_file c = Some f \<Longrightarrow> selected c \<Longrightarrow> \<not> (rxbuf_idx c = 0 \<and> b = 0xFF) \<Longrightarrow>
   rxbuf_idx c < 515 \<Longrightarrow>
   sdcard_handle b c =
     (let c1 = c\<lparr>rxbuf := (rxbuf c)[rxbuf_idx c := b], rxbuf_idx := rxbuf_idx c + 1\<rparr>
      in Some (if (rxbuf c1 ! 0) AND 0xC0 = 0x40 \<and> rxbuf_idx c1 = 6 then command_frame f c1
               else if rxbuf_idx c1 = 515 then (0xFF, data_frame f c1)
               else (0xFF, c1)))"
  by (cases "rxbuf_idx c = 0") (simp_all add: sdcard_handle_def Let_def)

lemma sdcard_handle_wf:
  assumes "sd_wf c"
  shows "\<exists>out c'. sdcard_handle b c = Some (out, c') \<and> sd_wf c'"
proof (cases "sdcard_file c")
  case None
  then show ?thesis using assms by (simp add: sdcard_handle_off)
next
  case (Some f)
  have idx: "rxbuf_idx c < 515" and len: "length (rxbuf c) = 515"
    using assms by (simp_all add: sd_wf_def)
  have cnt: "response c \<noteq> Nullptr \<Longrightarrow>
      response_counter c < length (response_array c (response c))"
    using assms by (auto simp: sd_wf_def)
  consider (off) "\<not> selected c"
    | (drain) "selected c" "rxbuf_idx c = 0" "b = 0xFF"
    | (buffer) "selected c" "\<not> (rxbuf_idx c = 0 \<and> b = 0xFF)"
    by auto
  then show ?thesis
  proof cases
    case off
    then show ?thesis using assms by (simp add: sdcard_handle_off)
  next
    case drain
    show ?thesis
    proof (cases "response c = Nullptr")
      case True
      then show ?thesis using Some drain assms by (simp add: sdcard_handle_idle)
    next
      case False
      show ?thesis
        unfolding drain(3) sdcard_handle_drain[OF Some drain(1,2) False cnt[OF False]]
        using sd_wf_drain[OF assms False] by simp
    qed
  next
    case buffer
    let ?c1 = "c\<lparr>rxbuf := (rxbuf c)[rxbuf_idx c := b], rxbuf_idx := rxbuf_idx c + 1\<rparr>"
    have wf6: "rxbuf_idx c + 1 = 6 \<Longrightarrow> sd_wf ?c1"
      using sd_wf_buffer[OF assms, of 6] by simp
    have wfS: "rxbuf_idx c + 1 \<noteq> 515 \<Longrightarrow> sd_wf ?c1"
      using sd_wf_buffer[OF assms, of "rxbuf_idx c + 1"] idx by simp
    have df: "sd_wf (data_frame f ?c1)"
      using sd_wf_buffer[OF assms, of 0 "rxbuf_idx c" b]
      by (intro data_frame_wf) simp
    have cf: "rxbuf_idx c + 1 = 6 \<Longrightarrow> sd_wf (snd (command_frame f ?c1))"
      using command_frame_wf[OF wf6, of f] by simp
    have "\<exists>out c'. (if (rxbuf ?c1 ! 0) AND 0xC0 = 0x40 \<and> rxbuf_idx ?c1 = 6 then command_frame f ?c1
               else if rxbuf_idx ?c1 = 515 then (0xFF, data_frame f ?c1)
               else (0xFF, ?c1)) = (out, c') \<and> sd_wf c'"
    proof (cases "rxbuf_idx c + 1 = 6")
      case True
      then show ?thesis using cf wf6 by (cases "command_frame f ?c1") auto
    next
      case False
      then show ?thesis using df wfS by auto
    qed
    then show ?thesis
      unfolding sdcard_handle_buffer[OF Some buffer idx] Let_def by simp
  qed
qed

lemma sd_wf_boot: "sd_wf sdcard_boot"
  by (simp add: sd_wf_def sdcard_boot_def)

lemma sd_wf_select: "sd_wf c \<Longrightarrow> sd_wf (sdcard_select b c)"
  by (auto simp: sd_wf_def sdcard_select_def)

lemma sd_wf_attach: "sd_wf c \<Longrightarrow> sd_wf (sdcard_attach p opened c)"
  by (auto simp: sd_wf_def sdcard_attach_def split: option.splits)

lemma sd_wf_detach: "sd_wf c \<Longrightarrow> sd_wf (sdcard_detach c)"
  by (auto simp: sd_wf_def sdcard_detach_def)

lemma sdcard_transfer_wf:
  "sd_wf c \<Longrightarrow> \<exists>outs c'. sdcard_transfer bs c = Some (outs, c') \<and> sd_wf c' \<and> length outs = length bs"
proof (induction bs arbitrary: c)
  case Nil
  then show ?case by simp
next
  case (Cons b bs)
  from sdcard_handle_wf[OF Cons.prems, of b] obtain out c1
    where h: "sdcard_handle b c = Some (out, c1)" and wf1: "sd_wf c1" by blast
  from Cons.IH[OF wf1] obtain outs c2
    where t: "sdcard_transfer bs c1 = Some (outs, c2)" and "sd_wf c2" "length outs = length bs"
    by blast
  then show ?case using h by simp
qed

section \<open>Frames and responses\<close>

lemma top_bits_not_FF: "(b::u8) AND 0xC0 = 0x40 \<Longrightarrow> b \<noteq> 0xFF"
  by auto

lemma list_update_append_drop:
  "length bs < length xs \<Longrightarrow>
   (bs @ drop (length bs) xs)[length bs := b] = (bs @ [b]) @ drop (length (bs @ [b])) xs"
  by (simp add: list_update_append Cons_nth_drop_Suc[symmetric] upd_conv_take_nth_drop drop_Suc tl_drop)

text \<open>Bytes that only accumulate in the receive buffer.\<close>

lemma sdcard_transfer_buffer:
  assumes f: "sdcard_file c = Some f" and sel: "selected c" and idx: "rxbuf_idx c = 0"
    and len: "length (rxbuf c) = 515"
  shows "bs \<noteq> [] \<Longrightarrow> hd bs \<noteq> 0xFF \<Longrightarrow>
         length bs < (if hd bs AND 0xC0 = 0x40 then 6 else 515) \<Longrightarrow>
         sdcard_transfer bs c =
           Some (replicate (length bs) 0xFF,
                 c\<lparr>rxbuf := bs @ drop (length bs) (rxbuf c), rxbuf_idx := length bs\<rparr>)"
proof (induction bs rule: rev_induct)
  case Nil
  then show ?case by simp
next
  case (snoc b bs)
  show ?case
  proof (cases "bs = []")
    case True
    have "sdcard_handle b c = Some (0xFF, c\<lparr>rxbuf := (rxbuf c)[0 := b], rxbuf_idx := 1\<rparr>)"
      using snoc.prems True f sel idx len
      by (subst sdcard_handle_buffer[OF f sel]) (auto simp: Let_def)
    moreover have "(rxbuf c)[0 := b] = [b] @ drop 1 (rxbuf c)"
      using len by (cases "rxbuf c") simp_all
    ultimately show ?thesis using True by simp
  next
    case False
    let ?c1 = "c\<lparr>rxbuf := bs @ drop (length bs) (rxbuf c), rxbuf_idx := length bs\<rparr>"
    have hd: "hd (bs @ [b]) = hd bs" using False by simp
    have lt: "length bs + 1 < (if hd bs AND 0xC0 = 0x40 then 6 else 515)"
      using snoc.prems hd by simp
    then have lt': "length bs < (if hd bs AND 0xC0 = 0x40 then 6 else 515)" by (simp split: if_splits)
    have IH: "sdcard_transfer bs c = Some (replicate (length bs) 0xFF, ?c1)"
      using snoc.IH[OF False] snoc.prems hd lt' by simp
    have n0: "(bs @ drop (length bs) (rxbuf c)) ! 0 = hd bs"
      using False by (cases bs) simp_all
    have upd: "(bs @ drop (length bs) (rxbuf c))[length bs := b]
                = (bs @ [b]) @ drop (length (bs @ [b])) (rxbuf c)"
      using lt len by (intro list_update_append_drop) (simp split: if_splits)
    have n0': "((bs @ [b]) @ drop (length (bs @ [b])) (rxbuf c)) ! 0 = hd bs"
      using False by (cases bs) simp_all
    let ?c2 = "c\<lparr>rxbuf := (bs @ [b]) @ drop (length (bs @ [b])) (rxbuf c),
                   rxbuf_idx := length (bs @ [b])\<rparr>"
    have c2: "?c1\<lparr>rxbuf := (rxbuf ?c1)[rxbuf_idx ?c1 := b], rxbuf_idx := rxbuf_idx ?c1 + 1\<rparr> = ?c2"
      using upd by simp
    have nocmd: "\<not> ((rxbuf ?c2 ! 0) AND 0xC0 = 0x40 \<and> rxbuf_idx ?c2 = 6)"
      using n0' lt by (auto split: if_splits)
    have nodata: "rxbuf_idx ?c2 \<noteq> 515"
      using lt by (auto split: if_splits)
    have "sdcard_handle b ?c1 =
        (let c1 = ?c1\<lparr>rxbuf := (rxbuf ?c1)[rxbuf_idx ?c1 := b], rxbuf_idx := rxbuf_idx ?c1 + 1\<rparr>
         in Some (if (rxbuf c1 ! 0) AND 0xC0 = 0x40 \<and> rxbuf_idx c1 = 6 then command_frame f c1
               else if rxbuf_idx c1 = 515 then (0xFF, data_frame f c1)
               else (0xFF, c1)))"
      using f sel False lt by (intro sdcard_handle_buffer) (simp_all split: if_splits)
    then have step: "sdcard_handle b ?c1 = Some (0xFF, ?c2)"
      unfolding Let_def c2 using nocmd nodata by (simp only: if_False)
    show ?thesis
      unfolding sdcard_transfer_append IH using step
      by (simp add: replicate_append_same)
  qed
qed

lemma fst_command_frame: "fst (command_frame f c) = 0xFF"
  by (simp add: command_frame_def Let_def)

lemma sdcard_transfer_command:
  assumes f: "sdcard_file c = Some f" and sel: "selected c" and idx: "rxbuf_idx c = 0"
    and len: "length (rxbuf c) = 515"
    and fr: "length frame = 6" and top: "hd frame AND 0xC0 = 0x40"
  shows "sdcard_transfer frame c =
           Some (replicate 6 0xFF,
                 snd (command_frame f (c\<lparr>rxbuf := frame @ drop 6 (rxbuf c), rxbuf_idx := 6\<rparr>)))"
proof -
  obtain bs b where fb: "frame = bs @ [b]" and lbs: "length bs = 5"
    using fr by (cases frame rule: rev_cases) simp_all
  have ne: "bs \<noteq> []" using lbs by auto
  have hd: "hd bs = hd frame" using fb ne by simp
  let ?c1 = "c\<lparr>rxbuf := bs @ drop (length bs) (rxbuf c), rxbuf_idx := length bs\<rparr>"
  let ?c2 = "c\<lparr>rxbuf := frame @ drop 6 (rxbuf c), rxbuf_idx := 6\<rparr>"
  have pre: "sdcard_transfer bs c = Some (replicate (length bs) 0xFF, ?c1)"
    using ne hd top lbs top_bits_not_FF[OF top]
    by (intro sdcard_transfer_buffer[OF f sel idx len]) simp_all
  have upd: "(bs @ drop (length bs) (rxbuf c))[length bs := b]
              = (bs @ [b]) @ drop (length (bs @ [b])) (rxbuf c)"
    using lbs len by (intro list_update_append_drop) simp
  have c2: "?c1\<lparr>rxbuf := (rxbuf ?c1)[rxbuf_idx ?c1 := b], rxbuf_idx := rxbuf_idx ?c1 + 1\<rparr> = ?c2"
    using upd fb lbs by simp
  have n0: "rxbuf ?c2 ! 0 = hd frame"
    using fr by (cases frame) simp_all
  have "sdcard_handle b ?c1 =
        (let c1 = ?c1\<lparr>rxbuf := (rxbuf ?c1)[rxbuf_idx ?c1 := b], rxbuf_idx := rxbuf_idx ?c1 + 1\<rparr>
         in Some (if (rxbuf c1 ! 0) AND 0xC0 = 0x40 \<and> rxbuf_idx c1 = 6 then command_frame f c1
               else if rxbuf_idx c1 = 515 then (0xFF, data_frame f c1)
               else (0xFF, c1)))"
    using f sel lbs by (intro sdcard_handle_buffer) simp_all
  then have "sdcard_handle b ?c1 = Some (command_frame f ?c2)"
    unfolding Let_def c2 using n0 top by simp
  then have step: "sdcard_handle b ?c1 = Some (0xFF, snd (command_frame f ?c2))"
    using fst_command_frame[of f ?c2] by (cases "command_frame f ?c2") simp
  show ?thesis
    unfolding fb sdcard_transfer_append pre
    using step lbs fb by (simp add: replicate_append_same numeral_eq_Suc)
qed

lemma sdcard_transfer_data:
  assumes f: "sdcard_file c = Some f" and sel: "selected c" and idx: "rxbuf_idx c = 0"
    and len: "length (rxbuf c) = 515"
    and fr: "length frame = 515" and nFF: "hd frame \<noteq> 0xFF" and top: "hd frame AND 0xC0 \<noteq> 0x40"
  shows "sdcard_transfer frame c =
           Some (replicate 515 0xFF, data_frame f (c\<lparr>rxbuf := frame, rxbuf_idx := 515\<rparr>))"
proof -
  obtain bs b where fb: "frame = bs @ [b]" and lbs: "length bs = 514"
    using fr by (cases frame rule: rev_cases) simp_all
  have ne: "bs \<noteq> []" using lbs by auto
  have hd: "hd bs = hd frame" using fb ne by simp
  let ?c1 = "c\<lparr>rxbuf := bs @ drop (length bs) (rxbuf c), rxbuf_idx := length bs\<rparr>"
  let ?c2 = "c\<lparr>rxbuf := frame, rxbuf_idx := 515\<rparr>"
  have pre: "sdcard_transfer bs c = Some (replicate (length bs) 0xFF, ?c1)"
    using ne hd top lbs nFF
    by (intro sdcard_transfer_buffer[OF f sel idx len]) simp_all
  have upd: "(bs @ drop (length bs) (rxbuf c))[length bs := b]
              = (bs @ [b]) @ drop (length (bs @ [b])) (rxbuf c)"
    using lbs len by (intro list_update_append_drop) simp
  have c2: "?c1\<lparr>rxbuf := (rxbuf ?c1)[rxbuf_idx ?c1 := b], rxbuf_idx := rxbuf_idx ?c1 + 1\<rparr> = ?c2"
    using upd fb lbs len by simp
  have n0: "rxbuf ?c2 ! 0 = hd frame"
    using fr by (cases frame) simp_all
  have "sdcard_handle b ?c1 =
        (let c1 = ?c1\<lparr>rxbuf := (rxbuf ?c1)[rxbuf_idx ?c1 := b], rxbuf_idx := rxbuf_idx ?c1 + 1\<rparr>
         in Some (if (rxbuf c1 ! 0) AND 0xC0 = 0x40 \<and> rxbuf_idx c1 = 6 then command_frame f c1
               else if rxbuf_idx c1 = 515 then (0xFF, data_frame f c1)
               else (0xFF, c1)))"
    using f sel lbs by (intro sdcard_handle_buffer) simp_all
  then have step: "sdcard_handle b ?c1 = Some (0xFF, data_frame f ?c2)"
    unfolding Let_def c2 using n0 top by simp
  have "replicate 514 (0xFF::u8) @ [0xFF] = replicate 515 0xFF"
    using replicate_add[of 514 1 "0xFF::u8"] by simp
  then show ?thesis
    unfolding fb sdcard_transfer_append pre
    using step lbs fb by simp
qed

text \<open>Draining a pending response with probe bytes.\<close>

lemma sdcard_transfer_idle:
  assumes "sdcard_file c = Some f" "selected c" "rxbuf_idx c = 0" "response c = Nullptr"
  shows "sdcard_transfer (replicate n 0xFF) c = Some (replicate n 0xFF, c)"
  using assms by (induction n) (simp_all add: sdcard_handle_idle)

lemma sdcard_transfer_drain:
  assumes f: "sdcard_file c = Some f" and sel: "selected c" and idx: "rxbuf_idx c = 0"
  shows "response c \<noteq> Nullptr \<Longrightarrow>
         response_length c = length (response_array c (response c)) \<Longrightarrow>
         response_counter c + n \<le> response_length c \<Longrightarrow>
         sdcard_transfer (replicate n 0xFF) c =
           Some (take n (drop (response_counter c) (response_array c (response c))),
                 if n = 0 then c
                 else c\<lparr>response_counter := response_counter c + n,
                        response := (if response_counter c + n = response_length c
                                     then Nullptr else response c)\<rparr>)"
  using f sel idx
proof (induction n arbitrary: c)
  case 0
  then show ?case by simp
next
  case (Suc n)
  let ?arr = "response_array c (response c)"
  let ?k = "response_counter c"
  have k: "?k < length ?arr" using Suc.prems by simp
  let ?c1 = "c\<lparr>response_counter := Suc ?k\<rparr>"
  have h: "sdcard_handle 0xFF c = Some (?arr ! ?k, ?c1)" if "n \<noteq> 0"
    using Suc.prems k that by (simp add: sdcard_handle_drain)
  have h0: "sdcard_handle 0xFF c = Some (?arr ! ?k, c\<lparr>response_counter := Suc ?k, response := Nullptr\<rparr>)"
    if "n = 0" "Suc ?k = response_length c"
    using Suc.prems k that by (simp add: sdcard_handle_drain)
  have h0': "sdcard_handle 0xFF c = Some (?arr ! ?k, ?c1)"
    if "n = 0" "Suc ?k \<noteq> response_length c"
    using Suc.prems k that by (simp add: sdcard_handle_drain)
  have arr1: "response_array ?c1 (response ?c1) = ?arr"
    by simp
  have tk: "take (Suc n) (drop ?k ?arr) = ?arr ! ?k # take n (drop (Suc ?k) ?arr)"
    using k by (simp add: Cons_nth_drop_Suc[symmetric])
  show ?case
  proof (cases "n = 0")
    case True
    then show ?thesis using h0 h0' tk by (cases "Suc ?k = response_length c") simp_all
  next
    case False
    have IH: "sdcard_transfer (replicate n 0xFF) ?c1 =
        Some (take n (drop (response_counter ?c1) (response_array ?c1 (response ?c1))),
              if n = 0 then ?c1
              else ?c1\<lparr>response_counter := response_counter ?c1 + n,
                        response := (if response_counter ?c1 + n = response_length ?c1
                                     then Nullptr else response ?c1)\<rparr>)"
      using Suc.prems by (intro Suc.IH) (simp_all add: arr1)
    show ?thesis
      using h[OF False] IH False tk by (simp add: arr1)
  qed
qed

lemma command_frame_valid:
  assumes "rxbuf c ! 0 AND 0xC0 = 0x40" "length (rxbuf c) = 515"
  shows "snd (command_frame f c) =
     (command_switch f (c\<lparr>rxbuf_idx := 0, rxbuf := (rxbuf c)[0 := dispatched c],
                          is_acmd := False, last_cmd := dispatched c\<rparr>))\<lparr>response_counter := 0\<rparr>"
proof (cases "is_acmd c")
  case True
  then show ?thesis using assms by (simp add: command_frame_def Let_def dispatched_def)
next
  case False
  have eq: "c\<lparr>rxbuf_idx := i, rxbuf := b, is_acmd := False, last_cmd := l\<rparr>
        = c\<lparr>rxbuf_idx := i, rxbuf := b, last_cmd := l\<rparr>" for i b l
    using False by (intro sdcard.equality) simp_all
  show ?thesis using assms False by (simp add: command_frame_def Let_def dispatched_def eq)
qed

lemma dispatched_buffer [simp]:
  "dispatched (c\<lparr>rxbuf := buf, rxbuf_idx := i\<rparr>) = (buf ! 0 AND 0x3F) OR (if is_acmd c then 0x80 else 0)"
  by (simp add: dispatched_def)

lemma sdcard_transfer_command':
  assumes f: "sdcard_file c = Some f" and sel: "selected c" and idx: "rxbuf_idx c = 0"
    and len: "length (rxbuf c) = 515"
    and fr: "length frame = 6" and top: "hd frame AND 0xC0 = 0x40"
  shows "sdcard_transfer frame c =
           Some (replicate 6 0xFF,
                 (command_switch f (after_frame frame c))\<lparr>response_counter := 0\<rparr>)"
proof -
  let ?c2 = "c\<lparr>rxbuf := frame @ drop 6 (rxbuf c), rxbuf_idx := 6\<rparr>"
  obtain b0 rest where fr': "frame = b0 # rest" using fr by (cases frame) auto
  have n0: "rxbuf ?c2 ! 0 = hd frame" using fr' by simp
  have l2: "length (rxbuf ?c2) = 515" using fr len by simp
  have "snd (command_frame f ?c2) =
     (command_switch f (?c2\<lparr>rxbuf_idx := 0, rxbuf := (rxbuf ?c2)[0 := dispatched ?c2],
                          is_acmd := False, last_cmd := dispatched ?c2\<rparr>))\<lparr>response_counter := 0\<rparr>"
    using n0 top l2 by (intro command_frame_valid) simp_all
  also have "?c2\<lparr>rxbuf_idx := 0, rxbuf := (rxbuf ?c2)[0 := dispatched ?c2],
                          is_acmd := False, last_cmd := dispatched ?c2\<rparr> = after_frame frame c"
    using fr' by (simp add: after_frame_def Let_def)
  finally show ?thesis
    using sdcard_transfer_command[OF assms] by simp
qed

lemmas cmd_defs = CMD0_def CMD8_def ACMD41_def CMD13_def CMD16_def CMD17_def CMD24_def
  CMD55_def CMD58_def

lemma after_frame_simps [simp]:
  "sdcard_file (after_frame fr c) = sdcard_file c"
  "selected (after_frame fr c) = selected c"
  "rxbuf_idx (after_frame fr c) = 0"
  "is_acmd (after_frame fr c) = False"
  "is_idle (after_frame fr c) = is_idle c"
  "is_initialized (after_frame fr c) = is_initialized c"
  "lba (after_frame fr c) = lba c"
  "r1 (after_frame fr c) = r1 c"
  "read_block_response (after_frame fr c) = read_block_response c"
  "last_cmd (after_frame fr c) = (hd fr AND 0x3F) OR (if is_acmd c then 0x80 else 0)"
  "rxbuf (after_frame fr c) = ((hd fr AND 0x3F) OR (if is_acmd c then 0x80 else 0)) # tl fr @ drop 6 (rxbuf c)"
  by (simp_all add: after_frame_def Let_def)

text \<open>Probing a response that has just been set.\<close>

lemma sdcard_transfer_probe:
  assumes f: "sdcard_file c = Some f" and sel: "selected c" and idx: "rxbuf_idx c = 0"
    and wf: "sd_wf c" and r: "response c \<noteq> Nullptr" and k: "response_counter c = 0"
  shows "sdcard_transfer (replicate n 0xFF) c =
           Some (take n (response_array c (response c) @ replicate n 0xFF),
                 c\<lparr>response_counter := min n (response_length c),
                   response := (if response_length c \<le> n then Nullptr else response c)\<rparr>)"
proof -
  let ?L = "response_length c"
  have l: "?L = length (response_array c (response c))" and L0: "?L \<noteq> 0"
    using r wf by (auto simp: sd_wf_def)
  show ?thesis
  proof (cases "n \<le> ?L")
    case True
    show ?thesis
    proof (cases "n = 0")
      case True
      then show ?thesis using L0 k[symmetric] by simp
    next
      case False
      then show ?thesis
        using sdcard_transfer_drain[OF f sel idx r l, of n] True k l by (simp add: min_def)
    qed
  next
    case False
    let ?c1 = "c\<lparr>response_counter := ?L, response := Nullptr\<rparr>"
    have n: "n = ?L + (n - ?L)" using False by simp
    have d: "sdcard_transfer (replicate ?L 0xFF) c = Some (response_array c (response c), ?c1)"
      using sdcard_transfer_drain[OF f sel idx r l, of ?L] k l L0 by simp
    have i: "sdcard_transfer (replicate (n - ?L) 0xFF) ?c1 = Some (replicate (n - ?L) 0xFF, ?c1)"
      using f sel idx by (intro sdcard_transfer_idle[where f = f]) simp_all
    have "sdcard_transfer (replicate ?L 0xFF @ replicate (n - ?L) 0xFF) c
            = Some (response_array c (response c) @ replicate (n - ?L) 0xFF, ?c1)"
      unfolding sdcard_transfer_append d using i by simp
    moreover have "replicate ?L (0xFF::u8) @ replicate (n - ?L) 0xFF = replicate n 0xFF"
      using n by (metis replicate_add)
    moreover have "take n (response_array c (response c) @ replicate n 0xFF)
          = response_array c (response c) @ replicate (n - ?L) 0xFF"
      using False l by simp
    ultimately show ?thesis using False by (simp add: min_def)
  qed
qed

lemma card_example_ready:
  "sd_wf card_example" "sdcard_file card_example = Some image_example"
  "selected card_example" "rxbuf_idx card_example = 0" "\<not> is_acmd card_example"
  by (simp_all add: card_example_def sdcard_select_def sdcard_attach_def sdcard_boot_def sd_wf_def)

lemma command_switch_CMD8:
  "rxbuf c ! 0 = 8 \<Longrightarrow> command_switch f c = set_response_r7 c"
  by (simp add: command_switch_def cmd_defs)

lemma sdcard_transfer_seq:
  "sdcard_transfer xs c = Some (o1, c1) \<Longrightarrow> sdcard_transfer ys c1 = Some (o2, c2) \<Longrightarrow>
   sdcard_transfer (xs @ ys) c = Some (o1 @ o2, c2)"
  by (simp add: sdcard_transfer_append)

lemma marker_not_cmd55: "((x::u8) AND 0x3F) OR 0x80 \<noteq> 0x37"
proof
  assume "(x AND 0x3F) OR 0x80 = 0x37"
  then have "bit ((x AND 0x3F) OR (0x80::u8)) 7 = bit (0x37::u8) 7" by simp
  then show False by (simp add: bit_or_iff bit_and_iff)
qed

lemma marker_bit: "bit (((x::u8) AND 0x3F) OR 0x80) 7" "\<not> bit ((x::u8) AND 0x3F) 7"
  by (simp_all add: bit_or_iff bit_and_iff)

lemmas response_defs =
  set_response_r1_def set_response_r2_def set_response_r3_def set_response_r7_def

lemma read_single_block_fields:
  "selected (read_single_block f c) = selected c"
  "rxbuf_idx (read_single_block f c) = rxbuf_idx c"
  "rxbuf (read_single_block f c) = rxbuf c"
  "last_cmd (read_single_block f c) = last_cmd c"
  "lba (read_single_block f c) = lba c"
  "is_acmd (read_single_block f c) = is_acmd c"
  "is_idle (read_single_block f c) = is_idle c"
  "is_initialized (read_single_block f c) = is_initialized c"
  by (simp_all add: read_single_block_def Let_def split: prod.splits)

lemma read_single_block_file:
  "sdcard_file c = Some g \<Longrightarrow> \<exists>g'. sdcard_file (read_single_block f c) = Some g'"
  by (simp add: read_single_block_def Let_def split: prod.splits)

lemma command_switch_fields:
  "selected (command_switch f c) = selected c"
  "rxbuf_idx (command_switch f c) = rxbuf_idx c"
  "rxbuf (command_switch f c) = rxbuf c"
  "last_cmd (command_switch f c) = last_cmd c"
  "is_acmd (command_switch f c) = (rxbuf c ! 0 = CMD55 \<or> is_acmd c)"
  "is_idle (command_switch f c) = (rxbuf c ! 0 = CMD0 \<or> (rxbuf c ! 0 \<noteq> ACMD41 \<and> is_idle c))"
  "is_initialized (command_switch f c) = (rxbuf c ! 0 = ACMD41 \<or> is_initialized c)"
  by (auto simp: command_switch_def Let_def response_defs read_single_block_fields cmd_defs)

lemma command_switch_file:
  "sdcard_file c = Some g \<Longrightarrow> \<exists>g'. sdcard_file (command_switch f c) = Some g'"
  using read_single_block_file[of c g f]
  by (simp add: command_switch_def Let_def response_defs cmd_defs)

text \<open>One complete command frame on a ready card, and what it leaves behind.\<close>

lemma command_step:
  assumes wf: "sd_wf c" and f: "sdcard_file c = Some f" and sel: "selected c"
    and idx: "rxbuf_idx c = 0" and fr: "length frame = 6" and top: "hd frame AND 0xC0 = 0x40"
  defines "cmd \<equiv> (hd frame AND 0x3F) OR (if is_acmd c then 0x80 else 0)"
  shows "\<exists>c' f'. sdcard_transfer frame c = Some (replicate 6 0xFF, c')
           \<and> sd_wf c' \<and> sdcard_file c' = Some f' \<and> selected c' \<and> rxbuf_idx c' = 0
           \<and> last_cmd c' = cmd
           \<and> is_acmd c' = (cmd = CMD55)
           \<and> is_idle c' = (cmd = CMD0 \<or> (cmd \<noteq> ACMD41 \<and> is_idle c))
           \<and> is_initialized c' = (cmd = ACMD41 \<or> is_initialized c)"
proof -
  let ?c1 = "(command_switch f (after_frame frame c))\<lparr>response_counter := 0\<rparr>"
  have len: "length (rxbuf c) = 515" using wf by (simp add: sd_wf_def)
  have 1: "sdcard_transfer frame c = Some (replicate 6 0xFF, ?c1)"
    by (rule sdcard_transfer_command'[OF f sel idx len fr top])
  have wf1: "sd_wf ?c1"
    using sdcard_transfer_wf[OF wf, of frame] 1 by simp
  have "sdcard_file ?c1 \<noteq> None"
    using f by (simp add: command_switch_file)
  then obtain f' where f': "sdcard_file ?c1 = Some f'" by blast
  show ?thesis
    using 1 wf1 f' sel
    by (intro exI[where x = ?c1] exI[where x = f']) (simp add: command_switch_fields cmd_def)
qed

lemma cmd8_state:
  assumes "sd_wf c" "sdcard_file c = Some f" "selected c" "rxbuf_idx c = 0" "\<not> is_acmd c"
  shows "sdcard_transfer [0x48, a1, a2, a3, a4, crc] c
           = Some (replicate 6 0xFF,
                   (after_frame [0x48, a1, a2, a3, a4, crc] c)
                     \<lparr>response := R7, response_length := 5, response_counter := 0\<rparr>)"
proof -
  have len: "length (rxbuf c) = 515" using assms(1) by (simp add: sd_wf_def)
  show ?thesis
    using assms len
    by (subst sdcard_transfer_command'[where f = f])
       (simp_all add: command_switch_CMD8 set_response_r7_def)
qed

lemma frame_lba_after_frame:
  "frame_lba (rxbuf (after_frame [b0, a1, a2, a3, a4, crc] c)) = frame_lba [b0, a1, a2, a3, a4, crc]"
  by (simp add: frame_lba_def)

lemma command_switch_CMD17:
  "rxbuf c ! 0 = 17 \<Longrightarrow> command_switch f c = read_single_block f c"
  by (simp add: command_switch_def cmd_defs)

lemma cmd17_state:
  assumes "sd_wf c" "sdcard_file c = Some f" "selected c" "rxbuf_idx c = 0" "\<not> is_acmd c"
  shows "sdcard_transfer [0x51, a1, a2, a3, a4, crc] c
           = Some (replicate 6 0xFF,
                   (read_single_block f (after_frame [0x51, a1, a2, a3, a4, crc] c))
                     \<lparr>response_counter := 0\<rparr>)"
proof -
  have len: "length (rxbuf c) = 515" using assms(1) by (simp add: sd_wf_def)
  show ?thesis
    using assms len
    by (subst sdcard_transfer_command'[where f = f])
       (simp_all add: command_switch_CMD17)
qed

lemma read_single_block_out_of_range:
  assumes "x16size f \<le> unat (frame_lba (rxbuf c)) * 512"
  shows "read_single_block f c =
           c\<lparr>read_block_response := (read_block_response c)[0 := 0x00, 1 := 0x08],
             response_length := 516, response := Read_block_response\<rparr>"
  using assms by (simp add: read_single_block_def Let_def)

lemma cmd17_out_of_range_state:
  assumes "sd_wf c" "sdcard_file c = Some f" "selected c" "rxbuf_idx c = 0" "\<not> is_acmd c"
    and "x16size f \<le> unat (frame_lba [0x51, a1, a2, a3, a4, crc]) * 512"
  shows "sdcard_transfer [0x51, a1, a2, a3, a4, crc] c
           = Some (replicate 6 0xFF,
                   (after_frame [0x51, a1, a2, a3, a4, crc] c)
                     \<lparr>read_block_response := (read_block_response c)[0 := 0x00, 1 := 0x08],
                       response_length := 516, response := Read_block_response,
                       response_counter := 0\<rparr>)"
proof -
  let ?c0 = "after_frame [0x51, a1, a2, a3, a4, crc] c"
  have "x16size f \<le> unat (frame_lba (rxbuf ?c0)) * 512"
    using assms(6) by (simp only: frame_lba_after_frame)
  then have "read_single_block f ?c0 =
           ?c0\<lparr>read_block_response := (read_block_response ?c0)[0 := 0x00, 1 := 0x08],
             response_length := 516, response := Read_block_response\<rparr>"
    by (rule read_single_block_out_of_range)
  then show ?thesis
    unfolding cmd17_state[OF assms(1-5)] by simp
qed

text \<open>Any number of probes at a clean cursor touch only the response pointer and counter.\<close>

lemma sdcard_handle_probe_any:
  assumes wf: "sd_wf c" and f: "sdcard_file c = Some f" and sel: "selected c" and idx: "rxbuf_idx c = 0"
  shows "\<exists>out k r. sdcard_handle 0xFF c = Some (out, c\<lparr>response_counter := k, response := r\<rparr>)"
proof (cases "response c = Nullptr")
  case True
  have "sdcard_handle 0xFF c
          = Some (0xFF, c\<lparr>response_counter := response_counter c, response := response c\<rparr>)"
    using sdcard_handle_idle[OF f sel idx True] by simp
  then show ?thesis by (intro exI)
next
  case False
  have k: "response_counter c < length (response_array c (response c))"
    using wf False by (auto simp: sd_wf_def)
  have "sdcard_handle 0xFF c
          = Some (response_array c (response c) ! response_counter c,
                  c\<lparr>response_counter := Suc (response_counter c),
                    response := (if Suc (response_counter c) = response_length c
                                 then Nullptr else response c)\<rparr>)"
    using sdcard_handle_drain[OF f sel idx False k] by simp
  then show ?thesis by (intro exI)
qed

lemma sdcard_transfer_probe_any:
  "sd_wf c \<Longrightarrow> sdcard_file c = Some f \<Longrightarrow> selected c \<Longrightarrow> rxbuf_idx c = 0 \<Longrightarrow>
   \<exists>outs k r. sdcard_transfer (replicate n 0xFF) c
                 = Some (outs, c\<lparr>response_counter := k, response := r\<rparr>)"
proof (induction n arbitrary: c)
  case 0
  have "sdcard_transfer (replicate 0 0xFF) c
          = Some ([], c\<lparr>response_counter := response_counter c, response := response c\<rparr>)"
    by simp
  then show ?case by (intro exI)
next
  case (Suc n)
  obtain out k r where h: "sdcard_handle 0xFF c = Some (out, c\<lparr>response_counter := k, response := r\<rparr>)"
    using sdcard_handle_probe_any[OF Suc.prems] by blast
  let ?c1 = "c\<lparr>response_counter := k, response := r\<rparr>"
  have wf1: "sd_wf ?c1" using sdcard_handle_wf[OF Suc.prems(1), of "0xFF"] h by simp
  obtain outs k' r' where t: "sdcard_transfer (replicate n 0xFF) ?c1
                 = Some (outs, ?c1\<lparr>response_counter := k', response := r'\<rparr>)"
    using Suc.IH[OF wf1] Suc.prems by auto
  have "sdcard_transfer (replicate (Suc n) 0xFF) c
          = Some (out # outs, c\<lparr>response_counter := k', response := r'\<rparr>)"
    using h t by simp
  then show ?case by (intro exI)
qed

text \<open>A command frame preceded by any number of probes leaves the same behind.\<close>

lemma probed_command_step:
  assumes wf: "sd_wf c" and f: "sdcard_file c = Some f" and sel: "selected c"
    and idx: "rxbuf_idx c = 0" and fr: "length frame = 6" and top: "hd frame AND 0xC0 = 0x40"
  defines "cmd \<equiv> (hd frame AND 0x3F) OR (if is_acmd c then 0x80 else 0)"
  shows "\<exists>outs c' f'. sdcard_transfer (replicate n 0xFF @ frame) c = Some (outs, c')
           \<and> sd_wf c' \<and> sdcard_file c' = Some f' \<and> selected c' \<and> rxbuf_idx c' = 0
           \<and> last_cmd c' = cmd
           \<and> is_acmd c' = (cmd = CMD55)
           \<and> is_idle c' = (cmd = CMD0 \<or> (cmd \<noteq> ACMD41 \<and> is_idle c))
           \<and> is_initialized c' = (cmd = ACMD41 \<or> is_initialized c)"
proof -
  obtain o1 k r where 1: "sdcard_transfer (replicate n 0xFF) c
      = Some (o1, c\<lparr>response_counter := k, response := r\<rparr>)"
    using sdcard_transfer_probe_any[OF wf f sel idx, of n] by blast
  let ?c1 = "c\<lparr>response_counter := k, response := r\<rparr>"
  have wf1: "sd_wf ?c1" using sdcard_transfer_wf[OF wf, of "replicate n 0xFF"] 1 by simp
  obtain c' f' where 2: "sdcard_transfer frame ?c1 = Some (replicate 6 0xFF, c')"
    and r: "sd_wf c'" "sdcard_file c' = Some f'" "selected c'" "rxbuf_idx c' = 0"
      "last_cmd c' = cmd" "is_acmd c' = (cmd = CMD55)"
      "is_idle c' = (cmd = CMD0 \<or> (cmd \<noteq> ACMD41 \<and> is_idle c))"
      "is_initialized c' = (cmd = ACMD41 \<or> is_initialized c)"
    using command_step[OF wf1 _ _ _ fr top, of f] f sel idx unfolding cmd_def by auto
  show ?thesis
    using sdcard_transfer_seq[OF 1 2] r by (intro exI conjI)
qed

lemma frame_lba_args:
  "frame_lba [b0, a1, a2, a3, a4, x] = frame_lba [b0', a1, a2, a3, a4, x']"
  by (simp add: frame_lba_def)

lemma command_switch_CMD24:
  "rxbuf c ! 0 = 24 \<Longrightarrow>
   command_switch f c = set_response_r1 (c\<lparr>lba := frame_lba (rxbuf c)\<rparr>)"
  by (simp add: command_switch_def cmd_defs)

lemma cmd24_step:
  assumes "sd_wf c" "sdcard_file c = Some f" "selected c" "rxbuf_idx c = 0" "\<not> is_acmd c"
  shows "\<exists>c1. sdcard_transfer [0x58, a1, a2, a3, a4, crc] c = Some (replicate 6 0xFF, c1)
           \<and> sd_wf c1 \<and> sdcard_file c1 = Some f \<and> selected c1 \<and> rxbuf_idx c1 = 0
           \<and> \<not> is_acmd c1 \<and> last_cmd c1 = CMD24
           \<and> lba c1 = frame_lba [0x58, a1, a2, a3, a4, crc]
           \<and> read_block_response c1 = read_block_response c"
proof -
  let ?fr = "[0x58, a1, a2, a3, a4, crc]"
  let ?c1 = "(command_switch f (after_frame ?fr c))\<lparr>response_counter := 0\<rparr>"
  have len: "length (rxbuf c) = 515" using assms(1) by (simp add: sd_wf_def)
  have 1: "sdcard_transfer ?fr c = Some (replicate 6 0xFF, ?c1)"
    using assms len by (intro sdcard_transfer_command') simp_all
  have wf1: "sd_wf ?c1"
    using sdcard_transfer_wf[OF assms(1), of ?fr] 1 by simp
  have l: "frame_lba (rxbuf (after_frame ?fr c)) = frame_lba ?fr"
    by (rule frame_lba_after_frame)
  have sw: "command_switch f (after_frame ?fr c)
              = set_response_r1 ((after_frame ?fr c)\<lparr>lba := frame_lba ?fr\<rparr>)"
    using assms(5) l by (subst command_switch_CMD24) simp_all
  show ?thesis
    using 1 wf1 assms(2,3,5) unfolding sw
    by (intro exI[where x = "(set_response_r1 ((after_frame ?fr c)\<lparr>lba := frame_lba ?fr\<rparr>))\<lparr>response_counter := 0\<rparr>"])
       (simp add: set_response_r1_def cmd_defs)
qed

lemma x16write_then_read:
  assumes "off < x16size f" "length payload = n"
  shows "off < x16size (x16write (x16seek f off) payload)"
    and "fst (x16read (x16seek (x16write (x16seek f off) payload) off) n) = payload"
  using assms by (auto simp: x16size_def x16write_def x16seek_def x16read_def Let_def)

lemma data_step:
  assumes "sd_wf c" "sdcard_file c = Some f" "selected c" "rxbuf_idx c = 0"
    and "last_cmd c = CMD24" "length payload = 512" "unat (lba c) * 512 < x16size f"
  shows "\<exists>c1. sdcard_transfer (0xFE # payload @ [x, y]) c = Some (replicate 515 0xFF, c1)
           \<and> sd_wf c1
           \<and> sdcard_file c1 = Some (x16write (x16seek f (unat (lba c) * 512)) payload)
           \<and> selected c1 \<and> rxbuf_idx c1 = 0 \<and> is_acmd c1 = is_acmd c
           \<and> read_block_response c1 = read_block_response c"
proof -
  let ?fr = "0xFE # payload @ [x, y]"
  let ?c1 = "data_frame f (c\<lparr>rxbuf := ?fr, rxbuf_idx := 515\<rparr>)"
  have len: "length (rxbuf c) = 515" using assms(1) by (simp add: sd_wf_def)
  have 1: "sdcard_transfer ?fr c = Some (replicate 515 0xFF, ?c1)"
    using assms(6) by (intro sdcard_transfer_data[OF assms(2,3,4) len]) simp_all
  have wf1: "sd_wf ?c1"
    using sdcard_transfer_wf[OF assms(1), of ?fr] 1 by simp
  have tk: "take 512 (drop 1 ?fr) = payload" using assms(6) by simp
  show ?thesis
    using 1 wf1 assms(3,5,7) tk
    by (intro exI[where x = ?c1]) (simp add: data_frame_def Let_def)
qed

lemma cmd17_in_range_step:
  assumes "sd_wf c" "sdcard_file c = Some f" "selected c" "rxbuf_idx c = 0" "\<not> is_acmd c"
    and "unat (frame_lba [0x51, a1, a2, a3, a4, crc]) * 512 < x16size f"
    and "fst (x16read (x16seek f (unat (frame_lba [0x51, a1, a2, a3, a4, crc]) * 512)) 512) = bytes"
    and "length bytes = 512"
  shows "\<exists>c1. sdcard_transfer [0x51, a1, a2, a3, a4, crc] c = Some (replicate 6 0xFF, c1)
           \<and> sd_wf c1 \<and> (\<exists>f1. sdcard_file c1 = Some f1) \<and> selected c1 \<and> rxbuf_idx c1 = 0
           \<and> response c1 = Read_block_response \<and> response_length c1 = 516
           \<and> response_counter c1 = 0
           \<and> read_block_response c1 = 0x00 # 0xFE # bytes @ drop 514 (read_block_response c)"
proof -
  let ?fr = "[0x51, a1, a2, a3, a4, crc]"
  let ?c0 = "after_frame ?fr c"
  let ?c1 = "(read_single_block f ?c0)\<lparr>response_counter := 0\<rparr>"
  have rl: "length (read_block_response c) = 516" using assms(1) by (simp add: sd_wf_def)
  have 1: "sdcard_transfer ?fr c = Some (replicate 6 0xFF, ?c1)"
    by (rule cmd17_state[OF assms(1-5)])
  have wf1: "sd_wf ?c1"
    using sdcard_transfer_wf[OF assms(1), of ?fr] 1 by simp
  have l: "frame_lba (rxbuf ?c0) = frame_lba ?fr"
    by (rule frame_lba_after_frame)
  have tk: "take 2 ((read_block_response c)[0 := 0x00, 1 := 0xFE]) = [0x00, 0xFE]"
    using rl by (simp add: list_eq_iff_nth_eq nth_list_update less_Suc_eq numeral_2_eq_2)
  have rbr: "read_block_response (read_single_block f ?c0)
               = 0x00 # 0xFE # bytes @ drop 514 (read_block_response c)"
    using assms(6,7,8) tk unfolding read_single_block_def l Let_def
    by (simp add: split_beta)
  have rest: "response (read_single_block f ?c0) = Read_block_response"
    "response_length (read_single_block f ?c0) = 516"
    by (simp_all add: read_single_block_def Let_def split: prod.splits)
  obtain f1 where f1: "sdcard_file (read_single_block f ?c0) = Some f1"
    using read_single_block_file[of ?c0 f f] assms(2) by auto
  show ?thesis
    using 1 wf1 rbr rest f1 assms(3)
    by (intro exI[where x = ?c1]) (simp add: read_single_block_fields)
qed

section \<open>Timing of the serial transfer\<close>

lemma vera_spi_step_idle: "\<not> busy s \<Longrightarrow> vera_spi_step n s = Some s"
  by (simp add: vera_spi_step_def)

lemma vera_spi_step_wait:
  "busy s \<Longrightarrow> int_range (outcounter s + n) \<Longrightarrow> outcounter s + n < 8 \<Longrightarrow>
   vera_spi_step n s = Some (s\<lparr>outcounter := outcounter s + n\<rparr>)"
  by (simp add: vera_spi_step_def Let_def)

lemma vera_spi_step_complete:
  assumes "busy s" "int_range (outcounter s + n)" "8 \<le> outcounter s + n" "sd_wf (sd_card s)"
  shows "\<exists>b c'. vera_spi_step n s
                  = Some (s\<lparr>outcounter := outcounter s + n, busy := False,
                            received_byte := b, sd_card := c'\<rparr>)
               \<and> sd_wf c'
               \<and> (if sdcard_is_attached (sd_card s)
                   then sdcard_handle (sending_byte s) (sd_card s) = Some (b, c')
                   else b = 0xFF \<and> c' = sd_card s)"
proof (cases "sdcard_is_attached (sd_card s)")
  case True
  obtain b c' where h: "sdcard_handle (sending_byte s) (sd_card s) = Some (b, c')" and wf: "sd_wf c'"
    using sdcard_handle_wf[OF assms(4)] by blast
  have "vera_spi_step n s
          = Some (s\<lparr>outcounter := outcounter s + n, busy := False, received_byte := b, sd_card := c'\<rparr>)"
    using assms True h by (simp add: vera_spi_step_def Let_def)
  then show ?thesis using True h wf by (intro exI[where x = b] exI[where x = c']) simp
next
  case False
  have "vera_spi_step n s
          = Some (s\<lparr>outcounter := outcounter s + n, busy := False, received_byte := 0xFF,
                    sd_card := sd_card s\<rparr>)"
    using assms False by (simp add: vera_spi_step_def Let_def)
  then show ?thesis using False assms(4) by (intro exI[where x = "0xFF"] exI[where x = "sd_card s"]) simp
qed

lemma vera_spi_steps_idle: "\<not> busy s \<Longrightarrow> vera_spi_steps ns s = Some s"
  by (induction ns) (simp_all add: vera_spi_step_idle)

lemma completions_idle: "\<not> busy s \<Longrightarrow> completions ns s = 0"
  by (induction ns) (simp_all add: vera_spi_step_idle)

lemma transfer_timing_aux:
  "busy s \<Longrightarrow> 0 \<le> outcounter s \<Longrightarrow> outcounter s < 8 \<Longrightarrow> sd_wf (sd_card s) \<Longrightarrow>
   \<forall>n \<in> set ticks. 0 \<le> n \<and> n \<le> 2147483640 \<Longrightarrow>
   \<exists>s'. vera_spi_steps ticks s = Some s'
      \<and> busy s' = (outcounter s + sum_list ticks < 8)
      \<and> (outcounter s + sum_list ticks < 8 \<longrightarrow> s' = s\<lparr>outcounter := outcounter s + sum_list ticks\<rparr>)
      \<and> completions ticks s = (if outcounter s + sum_list ticks < 8 then 0 else 1)"
proof (induction ticks arbitrary: s)
  case Nil
  then show ?case by simp
next
  case (Cons n ns)
  have n: "0 \<le> n" "n \<le> 2147483640" and ns: "\<forall>n \<in> set ns. 0 \<le> n \<and> n \<le> 2147483640"
    using Cons.prems(5) by simp_all
  have rng: "int_range (outcounter s + n)"
    using n Cons.prems(2,3) by (simp add: int_range_def)
  have sum0: "0 \<le> sum_list ns" using ns by (simp add: sum_list_nonneg)
  show ?case
  proof (cases "outcounter s + n < 8")
    case True
    let ?s1 = "s\<lparr>outcounter := outcounter s + n\<rparr>"
    have st: "vera_spi_step n s = Some ?s1"
      by (rule vera_spi_step_wait[OF Cons.prems(1) rng True])
    obtain s' where IH: "vera_spi_steps ns ?s1 = Some s'"
      "busy s' = (outcounter ?s1 + sum_list ns < 8)"
      "outcounter ?s1 + sum_list ns < 8 \<longrightarrow> s' = ?s1\<lparr>outcounter := outcounter ?s1 + sum_list ns\<rparr>"
      "completions ns ?s1 = (if outcounter ?s1 + sum_list ns < 8 then 0 else 1)"
      using Cons.IH[of ?s1] Cons.prems(1,4) n True ns Cons.prems(2) by auto
    show ?thesis
      using st IH Cons.prems(1) by (intro exI[where x = s']) (simp add: add.assoc)
  next
    case False
    obtain b c' where st: "vera_spi_step n s
        = Some (s\<lparr>outcounter := outcounter s + n, busy := False, received_byte := b, sd_card := c'\<rparr>)"
      using vera_spi_step_complete[OF Cons.prems(1) rng _ Cons.prems(4)] False by auto
    let ?s1 = "s\<lparr>outcounter := outcounter s + n, busy := False, received_byte := b, sd_card := c'\<rparr>"
    have "vera_spi_steps ns ?s1 = Some ?s1" "completions ns ?s1 = 0"
      by (simp_all add: vera_spi_steps_idle completions_idle)
    then show ?thesis
      using st False sum0 Cons.prems(1) by (intro exI[where x = ?s1]) simp
  qed
qed

lemma spi_started_reached:
  "vera_spi_run [(0, Write 1 1), (0, Write 0 0x40)] spi_example = Some spi_started"
  by (simp add: spi_started_def spi_example_def vera_spi_boot_def vera_spi_init_def
      vera_spi_write_def vera_spi_autostep_def vera_spi_step_def ticks_since_def Let_def
      card_example_def)

lemma vera_spi_autostep_wait:
  assumes "busy s" "int_range (outcounter s + ticks_since (clocks s) now)"
    "outcounter s + ticks_since (clocks s) now < 8"
  shows "vera_spi_autostep now s
           = Some (s\<lparr>outcounter := outcounter s + ticks_since (clocks s) now, clocks := now\<rparr>)"
  using assms by (simp add: vera_spi_autostep_def vera_spi_step_wait)

lemma spi_started_simps:
  "busy spi_started" "outcounter spi_started = 0" "clocks spi_started = 0"
  "sending_byte spi_started = 0x40" "sd_card spi_started = card_example" "ss spi_started"
  by (simp_all add: spi_started_def spi_example_def vera_spi_boot_def vera_spi_init_def)



lemmas spi_eval =
  vera_spi_write_def vera_spi_read_def vera_spi_autostep_def vera_spi_step_def ticks_since_def
  int_range_def sdcard_is_attached_def sdcard_handle_def sdcard_select_def sdcard_attach_def
  sdcard_boot_def spi_example_def vera_spi_boot_def vera_spi_init_def image_example_def Let_def
  status_byte_def

lemma spi_example_wf: "spi_wf spi_example" "clocks spi_example = 0"
  by (simp_all add: spi_wf_def sd_wf_def spi_eval)

lemma spi_started_wf: "sd_wf (sd_card spi_started)"
  by (simp add: spi_started_simps card_example_ready)

section \<open>The byte delivered by a transfer\<close>

lemma deliver_outcounter [simp]: "deliver (s\<lparr>outcounter := x\<rparr>) = deliver s"
  by (simp add: deliver_def)

lemma vera_spi_step_deliver:
  assumes "busy s" "int_range (outcounter s + n)" "8 \<le> outcounter s + n" "sd_wf (sd_card s)"
  shows "\<exists>b c'. deliver s = Some (b, c')
               \<and> vera_spi_step n s
                  = Some (s\<lparr>outcounter := outcounter s + n, busy := False,
                            received_byte := b, sd_card := c'\<rparr>)"
proof -
  obtain b c' where st: "vera_spi_step n s
        = Some (s\<lparr>outcounter := outcounter s + n, busy := False, received_byte := b, sd_card := c'\<rparr>)"
    and d: "if sdcard_is_attached (sd_card s)
            then sdcard_handle (sending_byte s) (sd_card s) = Some (b, c')
            else b = 0xFF \<and> c' = sd_card s"
    using vera_spi_step_complete[OF assms] by blast
  have "deliver s = Some (b, c')" using d by (simp add: deliver_def split: if_splits)
  then show ?thesis using st by blast
qed

lemma transfer_timing_aux2:
  "busy s \<Longrightarrow> 0 \<le> outcounter s \<Longrightarrow> outcounter s < 8 \<Longrightarrow> sd_wf (sd_card s) \<Longrightarrow>
   \<forall>n \<in> set ticks. 0 \<le> n \<and> n \<le> 2147483640 \<Longrightarrow>
   8 \<le> outcounter s + sum_list ticks \<Longrightarrow>
   \<exists>k b c'. k < length ticks
      \<and> outcounter s + sum_list (take k ticks) < 8
      \<and> 8 \<le> outcounter s + sum_list (take (Suc k) ticks)
      \<and> deliver s = Some (b, c')
      \<and> vera_spi_steps ticks s
          = Some (s\<lparr>outcounter := outcounter s + sum_list (take (Suc k) ticks), busy := False,
                    received_byte := b, sd_card := c'\<rparr>)"
proof (induction ticks arbitrary: s)
  case Nil
  then show ?case by simp
next
  case (Cons n ns)
  have n: "0 \<le> n" "n \<le> 2147483640" and ns: "\<forall>n \<in> set ns. 0 \<le> n \<and> n \<le> 2147483640"
    using Cons.prems(5) by simp_all
  have rng: "int_range (outcounter s + n)"
    using n Cons.prems(2,3) by (simp add: int_range_def)
  show ?case
  proof (cases "outcounter s + n < 8")
    case True
    let ?s1 = "s\<lparr>outcounter := outcounter s + n\<rparr>"
    have st: "vera_spi_step n s = Some ?s1"
      by (rule vera_spi_step_wait[OF Cons.prems(1) rng True])
    obtain k b c' where IH: "k < length ns"
      "outcounter ?s1 + sum_list (take k ns) < 8"
      "8 \<le> outcounter ?s1 + sum_list (take (Suc k) ns)"
      "deliver ?s1 = Some (b, c')"
      "vera_spi_steps ns ?s1
          = Some (?s1\<lparr>outcounter := outcounter ?s1 + sum_list (take (Suc k) ns), busy := False,
                    received_byte := b, sd_card := c'\<rparr>)"
      using Cons.IH[of ?s1] Cons.prems(1,2,4,6) n True ns by (auto simp: add.assoc)
    show ?thesis
      using st IH
      by (intro exI[where x = "Suc k"] exI[where x = b] exI[where x = c'])
         (simp add: add.assoc)
  next
    case False
    obtain b c' where d: "deliver s = Some (b, c')" and st: "vera_spi_step n s
        = Some (s\<lparr>outcounter := outcounter s + n, busy := False, received_byte := b, sd_card := c'\<rparr>)"
      using vera_spi_step_deliver[OF Cons.prems(1) rng _ Cons.prems(4)] False by auto
    let ?s1 = "s\<lparr>outcounter := outcounter s + n, busy := False, received_byte := b, sd_card := c'\<rparr>"
    have "vera_spi_steps ns ?s1 = Some ?s1"
      by (simp add: vera_spi_steps_idle)
    then show ?thesis
      using st d False Cons.prems(3)
      by (intro exI[where x = 0] exI[where x = b] exI[where x = c']) simp
  qed
qed

lemma deliver_spi_started:
  "deliver spi_started
     = Some (0xFF, card_example\<lparr>rxbuf := (rxbuf card_example)[0 := 0x40], rxbuf_idx := 1\<rparr>)"
  using card_example_ready
  by (simp add: deliver_def spi_started_simps sdcard_is_attached_def
      sdcard_handle_buffer[where f = image_example] Let_def sd_wf_def)
     (simp add: card_example_def sdcard_select_def sdcard_attach_def sdcard_boot_def)

lemma vera_spi_autostep_keeps:
  assumes "vera_spi_autostep now s = Some s1"
  shows "sending_byte s1 = sending_byte s" "ss s1 = ss s" "autotx s1 = autotx s"
    "clocks s1 = now" "busy s1 \<Longrightarrow> busy s"
  using assms
  by (auto simp: vera_spi_autostep_def vera_spi_step_def Let_def
      split: option.splits if_splits prod.splits)

lemma ticks_since_same [simp]: "ticks_since t t = 0"
  by (simp add: ticks_since_def)

lemma spi_partial_reached:
  "vera_spi_run [(0, Write 1 1), (0, Write 0 0x40), (8, Write 0 0x00), (16, Write 0 0x00),
                 (24, Read 1)] spi_example = Some spi_partial"
  by (simp add: spi_partial_def spi_eval card_example_def) (simp only: numeral_2_eq_2)



section \<open>Reading a block beyond the image\<close>

lemma read_single_block_size:
  "sdcard_file c = Some g \<Longrightarrow>
   \<exists>g'. sdcard_file (read_single_block f c) = Some g' \<and> (g = f \<longrightarrow> x16size g' = x16size f)"
  by (simp add: read_single_block_def Let_def x16read_def x16seek_def x16size_def
      split: prod.splits)

lemma cmd17_in_range_drained:
  assumes "sd_wf c" "sdcard_file c = Some f" "selected c" "rxbuf_idx c = 0" "\<not> is_acmd c"
    and "unat (frame_lba [0x51, a1, a2, a3, a4, crc]) * 512 < x16size f"
    and "fst (x16read (x16seek f (unat (frame_lba [0x51, a1, a2, a3, a4, crc]) * 512)) 512) = bytes"
    and "length bytes = 512"
  shows "\<exists>c2 f2. sdcard_transfer ([0x51, a1, a2, a3, a4, crc] @ replicate 516 0xFF) c
              = Some (replicate 6 0xFF @ 0x00 # 0xFE # bytes @ drop 514 (read_block_response c), c2)
           \<and> sd_wf c2 \<and> sdcard_file c2 = Some f2 \<and> x16size f2 = x16size f
           \<and> selected c2 \<and> rxbuf_idx c2 = 0 \<and> \<not> is_acmd c2
           \<and> read_block_response c2 = 0x00 # 0xFE # bytes @ drop 514 (read_block_response c)"
proof -
  let ?fr = "[0x51, a1, a2, a3, a4, crc]"
  let ?c0 = "after_frame ?fr c"
  let ?c1 = "(read_single_block f ?c0)\<lparr>response_counter := 0\<rparr>"
  have 1: "sdcard_transfer ?fr c = Some (replicate 6 0xFF, ?c1)"
    by (rule cmd17_state[OF assms(1-5)])
  obtain c1 where c1: "sdcard_transfer ?fr c = Some (replicate 6 0xFF, c1)"
    and r1: "sd_wf c1" "selected c1" "rxbuf_idx c1 = 0"
    and s1: "response c1 = Read_block_response" "response_length c1 = 516"
      "response_counter c1 = 0"
      "read_block_response c1 = 0x00 # 0xFE # bytes @ drop 514 (read_block_response c)"
    using cmd17_in_range_step[OF assms] by blast
  have e: "c1 = ?c1" using 1 c1 by simp
  obtain f2 where f2: "sdcard_file (read_single_block f ?c0) = Some f2"
    and sz: "x16size f2 = x16size f"
    using read_single_block_size[of ?c0 f f] assms(2) by auto
  have f1: "sdcard_file c1 = Some f2" and a1: "\<not> is_acmd c1"
    unfolding e using f2 by (simp_all add: read_single_block_fields)
  let ?c2 = "c1\<lparr>response_counter := min 516 (response_length c1),
                response := (if response_length c1 \<le> 516 then Nullptr else response c1)\<rparr>"
  have pr: "sdcard_transfer (replicate 516 0xFF) c1 =
           Some (take 516 (response_array c1 (response c1) @ replicate 516 0xFF), ?c2)"
    using r1 s1 f1 by (intro sdcard_transfer_probe[where f = f2]) simp_all
  have l1: "length (read_block_response c1) = 516" using r1(1) by (simp add: sd_wf_def)
  have arr: "take 516 (response_array c1 (response c1) @ replicate 516 0xFF)
               = 0x00 # 0xFE # bytes @ drop 514 (read_block_response c)"
    using l1 s1 by simp
  have wf2: "sd_wf ?c2"
    using sdcard_transfer_wf[OF r1(1), of "replicate 516 0xFF"] pr by simp
  have all: "sdcard_transfer (?fr @ replicate 516 0xFF) c
      = Some (replicate 6 0xFF @ 0x00 # 0xFE # bytes @ drop 514 (read_block_response c), ?c2)"
    using sdcard_transfer_seq[OF c1 pr] unfolding arr .
  show ?thesis
    apply (rule exI[where x = ?c2])
    apply (rule exI[where x = f2])
    using all wf2 f1 sz r1 a1 s1 by simp
qed

lemma cmd17_out_of_range_drain:
  assumes "sd_wf c" "sdcard_file c = Some f" "selected c" "rxbuf_idx c = 0" "\<not> is_acmd c"
    and "x16size f \<le> unat (frame_lba [0x51, a1, a2, a3, a4, crc]) * 512"
  shows "\<exists>c' c''. sdcard_transfer [0x51, a1, a2, a3, a4, crc] c = Some (replicate 6 0xFF, c')
            \<and> read_block_response c' = (read_block_response c)[0 := 0x00, 1 := 0x08]
            \<and> response c' = Read_block_response \<and> response_length c' = 516
            \<and> sdcard_transfer (replicate n 0xFF) c'
                 = Some (take n (0x00 # 0x08 # drop 2 (read_block_response c) @ replicate n 0xFF),
                         c'')"
proof -
  let ?fr = "[0x51, a1, a2, a3, a4, crc]"
  let ?c1 = "(after_frame ?fr c)
             \<lparr>read_block_response := (read_block_response c)[0 := 0x00, 1 := 0x08],
               response_length := 516, response := Read_block_response, response_counter := 0\<rparr>"
  have len: "length (read_block_response c) = 516" using assms(1) by (simp add: sd_wf_def)
  have 1: "sdcard_transfer ?fr c = Some (replicate 6 0xFF, ?c1)"
    by (rule cmd17_out_of_range_state[OF assms])
  have wf1: "sd_wf ?c1"
    using sdcard_transfer_wf[OF assms(1), of ?fr] 1 by simp
  have pr: "sdcard_transfer (replicate n 0xFF) ?c1 =
           Some (take n (response_array ?c1 (response ?c1) @ replicate n 0xFF),
                 ?c1\<lparr>response_counter := min n (response_length ?c1),
                   response := (if response_length ?c1 \<le> n then Nullptr else response ?c1)\<rparr>)"
    using wf1 assms by (intro sdcard_transfer_probe[where f = f]) simp_all
  have upd: "(read_block_response c)[0 := 0x00, 1 := 0x08]
               = 0x00 # 0x08 # drop 2 (read_block_response c)"
    using len
    by (simp add: list_eq_iff_nth_eq nth_Cons nth_list_update split: nat.splits)
  have arr: "response_array ?c1 (response ?c1) = 0x00 # 0x08 # drop 2 (read_block_response c)"
    using upd by simp
  show ?thesis
    using 1 pr unfolding arr by (intro exI conjI) simp_all
qed

lemma image_example_block0:
  "unat (frame_lba [0x51, 0x00, 0x00, 0x00, 0x00, 0xFF]) * 512 < x16size image_example"
  "fst (x16read (x16seek image_example (unat (frame_lba [0x51, 0x00, 0x00, 0x00, 0x00, 0xFF]) * 512)) 512)
     = replicate 512 0x11"
  "x16size image_example \<le> unat (frame_lba [0x51, 0x00, 0x00, 0x00, 0x05, 0xFF]) * 512"
  by (simp_all add: frame_lba_def x16size_def x16read_def x16seek_def image_example_def Let_def)

lemma card_example_buffer: "drop 514 (read_block_response card_example) = [0x00, 0x00]"
  "read_block_response card_example = replicate 516 0x00"
  by (simp_all add: card_example_def sdcard_select_def sdcard_attach_def sdcard_boot_def
      numeral_2_eq_2)

section \<open>The claims\<close>

text \<open>
  Claim C8. On a selected card with an image attached, after a complete CMD8 frame
  (first byte \<open>0x48\<close>, no application command pending), the probe transfers that
  follow return \<open>0x01, 0x00, 0x00, 0x01, 0xAA\<close> in this order and \<open>0xFF\<close> from the
  sixth probe on; the response is cleared once its five bytes are drained.
\<close>

theorem cmd8_response:
  assumes "sd_wf c" "sdcard_file c = Some f" "selected c" "rxbuf_idx c = 0" "\<not> is_acmd c"
  shows "\<exists>c'. sdcard_transfer ([0x48, a1, a2, a3, a4, crc] @ replicate n 0xFF) c
                 = Some (replicate 6 0xFF @ take n ([0x01, 0x00, 0x00, 0x01, 0xAA] @ replicate n 0xFF), c')
               \<and> (5 \<le> n \<longrightarrow> response c' = Nullptr)"
proof -
  let ?fr = "[0x48, a1, a2, a3, a4, crc]"
  let ?c1 = "(command_switch f (after_frame ?fr c))\<lparr>response_counter := 0\<rparr>"
  have len: "length (rxbuf c) = 515" using assms(1) by (simp add: sd_wf_def)
  have cmd: "sdcard_transfer ?fr c = Some (replicate 6 0xFF, ?c1)"
    using assms len by (intro sdcard_transfer_command') simp_all
  have c1: "?c1 = (after_frame ?fr c)\<lparr>response := R7, response_length := 5, response_counter := 0\<rparr>"
    using assms(5) by (simp add: command_switch_CMD8 set_response_r7_def)
  have wf1: "sd_wf ?c1"
    using sdcard_transfer_wf[OF assms(1), of ?fr] cmd by simp
  have pr: "sdcard_transfer (replicate n 0xFF) ?c1 =
           Some (take n (response_array ?c1 (response ?c1) @ replicate n 0xFF),
                 ?c1\<lparr>response_counter := min n (response_length ?c1),
                   response := (if response_length ?c1 \<le> n then Nullptr else response ?c1)\<rparr>)"
    using wf1 assms unfolding c1 by (intro sdcard_transfer_probe[where f = f]) simp_all
  show ?thesis
    unfolding sdcard_transfer_append cmd using pr unfolding c1 by simp
qed

text \<open>Claim C8 on the example card, with seven probes.\<close>

theorem cmd8_response_witness:
  "sd_wf card_example \<and> sdcard_file card_example = Some image_example \<and> selected card_example
   \<and> rxbuf_idx card_example = 0 \<and> \<not> is_acmd card_example
   \<and> (\<exists>c'. sdcard_transfer ([0x48, 0x00, 0x00, 0x01, 0xAA, 0x87] @ replicate 7 0xFF) card_example
                 = Some (replicate 6 0xFF @ [0x01, 0x00, 0x00, 0x01, 0xAA, 0xFF, 0xFF], c')
             \<and> response c' = Nullptr)"
  using cmd8_response[OF card_example_ready, of "0x00" "0x00" "0x01" "0xAA" "0x87" 7]
    card_example_ready
  by (simp add: numeral_eq_Suc)

text \<open>
  Claim C1, as amended. Six bytes arriving at a clean cursor whose first byte is buffered
  (it is not the probe \<open>0xFF\<close>) and does not carry the start and transmission bits
  \<open>01\<close> are not treated as a command frame: every transfer returns \<open>0xFF\<close>, the bytes
  stay in the receive buffer, the cursor stands at 6, and nothing else changes; in
  particular a pending response stays pending.
\<close>

theorem malformed_frame_kept:
  assumes "sd_wf c" "sdcard_file c = Some f" "selected c" "rxbuf_idx c = 0"
    and "b0 \<noteq> 0xFF" "b0 AND 0xC0 \<noteq> 0x40"
  shows "sdcard_transfer [b0, b1, b2, b3, b4, b5] c
           = Some (replicate 6 0xFF,
                   c\<lparr>rxbuf := [b0, b1, b2, b3, b4, b5] @ drop 6 (rxbuf c), rxbuf_idx := 6\<rparr>)"
proof -
  have len: "length (rxbuf c) = 515" using assms(1) by (simp add: sd_wf_def)
  let ?bs = "[b0, b1, b2, b3, b4, b5]"
  have six: "length ?bs = 6" by simp
  have "sdcard_transfer ?bs c =
          Some (replicate (length ?bs) 0xFF,
                c\<lparr>rxbuf := ?bs @ drop (length ?bs) (rxbuf c), rxbuf_idx := length ?bs\<rparr>)"
    using assms(5,6) by (intro sdcard_transfer_buffer[OF assms(2,3,4) len]) simp_all
  then show ?thesis unfolding six .
qed

text \<open>
  Claim C1 as amended, on the example card with six zero bytes.
\<close>

theorem malformed_frame_kept_witness:
  "sd_wf card_example \<and> sdcard_file card_example = Some image_example \<and> selected card_example
   \<and> rxbuf_idx card_example = 0 \<and> (0x00 :: u8) \<noteq> 0xFF \<and> (0x00 :: u8) AND 0xC0 \<noteq> 0x40
   \<and> sdcard_transfer [0x00, 0x00, 0x00, 0x00, 0x00, 0x00] card_example
        = Some (replicate 6 0xFF,
                card_example\<lparr>rxbuf := [0x00, 0x00, 0x00, 0x00, 0x00, 0x00] @ drop 6 (rxbuf card_example),
                               rxbuf_idx := 6\<rparr>)"
  using malformed_frame_kept[OF card_example_ready(1-4), of "0x00" "0x00" "0x00" "0x00" "0x00" "0x00"]
    card_example_ready
  by simp

text \<open>
  Claim C1 as stated fails: after CMD8 has left its response pending, six zero bytes
  (top bits \<open>00\<close>) leave the cursor at 6 and the response still pending.
\<close>

theorem malformed_frame_counterexample:
  "map_option (rxbuf_idx \<circ> snd)
     (sdcard_transfer ([0x48, 0x00, 0x00, 0x01, 0xAA, 0x87] @ [0x00, 0x00, 0x00, 0x00, 0x00, 0x00])
        card_example) = Some 6
   \<and> map_option (response \<circ> snd)
     (sdcard_transfer ([0x48, 0x00, 0x00, 0x01, 0xAA, 0x87] @ [0x00, 0x00, 0x00, 0x00, 0x00, 0x00])
        card_example) = Some R7"
proof -
  let ?c1 = "(after_frame [0x48, 0x00, 0x00, 0x01, 0xAA, 0x87] card_example)
                     \<lparr>response := R7, response_length := 5, response_counter := 0\<rparr>"
  have 1: "sdcard_transfer [0x48, 0x00, 0x00, 0x01, 0xAA, 0x87] card_example
             = Some (replicate 6 0xFF, ?c1)"
    by (rule cmd8_state[OF card_example_ready])
  have wf1: "sd_wf ?c1"
    using sdcard_transfer_wf[OF card_example_ready(1), of "[0x48, 0x00, 0x00, 0x01, 0xAA, 0x87]"] 1
    by simp
  have len: "length (rxbuf ?c1) = 515" using wf1 by (simp only: sd_wf_def)
  let ?bs = "[0x00, 0x00, 0x00, 0x00, 0x00, 0x00] :: u8 list"
  have 2: "sdcard_transfer ?bs ?c1
      = Some (replicate (length ?bs) 0xFF,
              ?c1\<lparr>rxbuf := ?bs @ drop (length ?bs) (rxbuf ?c1), rxbuf_idx := length ?bs\<rparr>)"
    using card_example_ready len
    by (intro sdcard_transfer_buffer[where f = image_example]) simp_all
  have 3: "sdcard_transfer ([0x48, 0x00, 0x00, 0x01, 0xAA, 0x87] @ ?bs) card_example
      = Some (replicate 6 0xFF @ replicate (length ?bs) 0xFF,
              ?c1\<lparr>rxbuf := ?bs @ drop (length ?bs) (rxbuf ?c1), rxbuf_idx := length ?bs\<rparr>)"
    unfolding sdcard_transfer_append 1 by (simp add: 2 del: sdcard_transfer.simps)
  show ?thesis
    unfolding 3 by simp
qed

text \<open>
  Claim C3, as amended. A CMD0 frame (first byte \<open>0x40\<close>, no application command
  pending) sets \<open>is_idle\<close> and leaves \<open>is_initialized\<close> as it was; CMD55 followed by
  CMD41, each after any number of probes, then clears \<open>is_idle\<close> and sets
  \<open>is_initialized\<close>.
\<close>

theorem cmd0_then_acmd41:
  assumes "sd_wf c" "sdcard_file c = Some f" "selected c" "rxbuf_idx c = 0" "\<not> is_acmd c"
  shows "\<exists>c1 outs c2. sdcard_transfer [0x40, a1, a2, a3, a4, a5] c = Some (replicate 6 0xFF, c1)
           \<and> is_idle c1 \<and> is_initialized c1 = is_initialized c
           \<and> sdcard_transfer (replicate n1 0xFF @ [0x77, b1, b2, b3, b4, b5]
                                 @ replicate n2 0xFF @ [0x69, d1, d2, d3, d4, d5]) c1
                = Some (outs, c2)
           \<and> \<not> is_idle c2 \<and> is_initialized c2"
proof -
  obtain c1 f1 where 1: "sdcard_transfer [0x40, a1, a2, a3, a4, a5] c = Some (replicate 6 0xFF, c1)"
    and r1: "sd_wf c1" "sdcard_file c1 = Some f1" "selected c1" "rxbuf_idx c1 = 0"
    and s1: "is_acmd c1 = (0 = CMD55)" "is_idle c1" "is_initialized c1 = is_initialized c"
    using command_step[OF assms(1-4), of "[0x40, a1, a2, a3, a4, a5]"] assms(5)
    by (auto simp: cmd_defs)
  obtain o2 c2 f2 where 2: "sdcard_transfer (replicate n1 0xFF @ [0x77, b1, b2, b3, b4, b5]) c1 = Some (o2, c2)"
    and r2: "sd_wf c2" "sdcard_file c2 = Some f2" "selected c2" "rxbuf_idx c2 = 0"
    and s2: "is_acmd c2"
    using probed_command_step[OF r1, of "[0x77, b1, b2, b3, b4, b5]" n1] s1
    by (auto simp: cmd_defs)
  obtain o3 c3 f3 where 3: "sdcard_transfer (replicate n2 0xFF @ [0x69, d1, d2, d3, d4, d5]) c2 = Some (o3, c3)"
    and s3: "\<not> is_idle c3" "is_initialized c3"
    using probed_command_step[OF r2, of "[0x69, d1, d2, d3, d4, d5]" n2] s2
    by (auto simp: cmd_defs)
  have "sdcard_transfer ((replicate n1 0xFF @ [0x77, b1, b2, b3, b4, b5])
                          @ (replicate n2 0xFF @ [0x69, d1, d2, d3, d4, d5])) c1
          = Some (o2 @ o3, c3)"
    by (rule sdcard_transfer_seq[OF 2 3])
  then have "sdcard_transfer (replicate n1 0xFF @ [0x77, b1, b2, b3, b4, b5]
                                 @ replicate n2 0xFF @ [0x69, d1, d2, d3, d4, d5]) c1
          = Some (o2 @ o3, c3)"
    by (simp only: append_assoc)
  then show ?thesis using 1 s1 s3 by (intro exI conjI)
qed

text \<open>
  Claim C3 as amended, on the example card.
\<close>

theorem cmd0_then_acmd41_witness:
  "sd_wf card_example \<and> sdcard_file card_example = Some image_example \<and> selected card_example
   \<and> rxbuf_idx card_example = 0 \<and> \<not> is_acmd card_example
   \<and> (\<exists>c1 outs c2. sdcard_transfer [0x40, 0x00, 0x00, 0x00, 0x00, 0x95] card_example
                  = Some (replicate 6 0xFF, c1)
           \<and> is_idle c1 \<and> is_initialized c1 = is_initialized card_example
           \<and> sdcard_transfer (replicate 2 0xFF @ [0x77, 0x00, 0x00, 0x00, 0x00, 0x65]
                                 @ replicate 2 0xFF @ [0x69, 0x40, 0x00, 0x00, 0x00, 0x77]) c1
                = Some (outs, c2)
           \<and> \<not> is_idle c2 \<and> is_initialized c2)"
  using cmd0_then_acmd41[OF card_example_ready] card_example_ready by blast

text \<open>
  Claim C3 as stated fails: once ACMD41 has initialised the card, a CMD0 does not
  reset \<open>is_initialized\<close>.
\<close>

theorem cmd0_rearm_counterexample:
  "map_option (is_initialized \<circ> snd)
     (sdcard_transfer ([0x77, 0x00, 0x00, 0x00, 0x00, 0x65] @ [0x69, 0x40, 0x00, 0x00, 0x00, 0x77]
                        @ [0x40, 0x00, 0x00, 0x00, 0x00, 0x95]) card_example) = Some True"
proof -
  obtain c1 f1 where 1: "sdcard_transfer [0x77, 0x00, 0x00, 0x00, 0x00, 0x65] card_example = Some (replicate 6 0xFF, c1)"
    and r1: "sd_wf c1" "sdcard_file c1 = Some f1" "selected c1" "rxbuf_idx c1 = 0"
    and s1: "is_acmd c1"
    using command_step[OF card_example_ready(1-4), of "[0x77, 0x00, 0x00, 0x00, 0x00, 0x65]"]
      card_example_ready(5)
    by (auto simp: cmd_defs)
  obtain c2 f2 where 2: "sdcard_transfer [0x69, 0x40, 0x00, 0x00, 0x00, 0x77] c1 = Some (replicate 6 0xFF, c2)"
    and r2: "sd_wf c2" "sdcard_file c2 = Some f2" "selected c2" "rxbuf_idx c2 = 0"
    and s2: "\<not> is_acmd c2" "is_initialized c2"
    using command_step[OF r1, of "[0x69, 0x40, 0x00, 0x00, 0x00, 0x77]"] s1
    by (auto simp: cmd_defs)
  obtain c3 f3 where 3: "sdcard_transfer [0x40, 0x00, 0x00, 0x00, 0x00, 0x95] c2 = Some (replicate 6 0xFF, c3)"
    and s3: "is_initialized c3"
    using command_step[OF r2, of "[0x40, 0x00, 0x00, 0x00, 0x00, 0x95]"] s2
    by (auto simp: cmd_defs)
  have "sdcard_transfer ([0x77, 0x00, 0x00, 0x00, 0x00, 0x65] @ [0x69, 0x40, 0x00, 0x00, 0x00, 0x77]
                        @ [0x40, 0x00, 0x00, 0x00, 0x00, 0x95]) card_example
       = Some (replicate 6 0xFF @ replicate 6 0xFF @ replicate 6 0xFF, c3)"
    by (rule sdcard_transfer_seq[OF 1 sdcard_transfer_seq[OF 2 3]])
  then show ?thesis using s3 by (simp del: sdcard_transfer.simps append.simps)
qed

text \<open>
  Claim C7. CMD55 (first byte \<open>0x77\<close>, dispatched as such) sets the application-command
  flag; the next command frame, after any number of probes, is dispatched with the
  marker bit \<open>0x80\<close> set and clears the flag; the command frame after that is
  dispatched without the marker bit. \<open>last_cmd\<close> holds the index on which the switch
  dispatches.
\<close>

theorem app_command_once:
  assumes "sd_wf c" "sdcard_file c = Some f" "selected c" "rxbuf_idx c = 0" "\<not> is_acmd c"
    and "x AND 0xC0 = 0x40" "y AND 0xC0 = 0x40"
  shows "\<exists>c1 o2 c2 o3 c3.
           sdcard_transfer [0x77, a1, a2, a3, a4, a5] c = Some (replicate 6 0xFF, c1)
           \<and> is_acmd c1
           \<and> sdcard_transfer (replicate n1 0xFF @ [x, b1, b2, b3, b4, b5]) c1 = Some (o2, c2)
           \<and> last_cmd c2 = (x AND 0x3F) OR 0x80 \<and> \<not> is_acmd c2
           \<and> sdcard_transfer (replicate n2 0xFF @ [y, d1, d2, d3, d4, d5]) c2 = Some (o3, c3)
           \<and> last_cmd c3 = y AND 0x3F \<and> \<not> bit (last_cmd c3) 7"
proof -
  obtain c1 f1 where 1: "sdcard_transfer [0x77, a1, a2, a3, a4, a5] c = Some (replicate 6 0xFF, c1)"
    and r1: "sd_wf c1" "sdcard_file c1 = Some f1" "selected c1" "rxbuf_idx c1 = 0"
    and s1: "is_acmd c1"
    using command_step[OF assms(1-4), of "[0x77, a1, a2, a3, a4, a5]"] assms(5)
    by (auto simp: cmd_defs)
  obtain o2 c2 f2 where 2: "sdcard_transfer (replicate n1 0xFF @ [x, b1, b2, b3, b4, b5]) c1 = Some (o2, c2)"
    and r2: "sd_wf c2" "sdcard_file c2 = Some f2" "selected c2" "rxbuf_idx c2 = 0"
    and s2: "last_cmd c2 = (x AND 0x3F) OR 0x80" "\<not> is_acmd c2"
    using probed_command_step[OF r1, of "[x, b1, b2, b3, b4, b5]" n1] s1 assms(6)
      marker_not_cmd55[of x]
    by (auto simp: cmd_defs)
  obtain o3 c3 f3 where 3: "sdcard_transfer (replicate n2 0xFF @ [y, d1, d2, d3, d4, d5]) c2 = Some (o3, c3)"
    and s3: "last_cmd c3 = y AND 0x3F"
    using probed_command_step[OF r2, of "[y, d1, d2, d3, d4, d5]" n2] s2 assms(7)
    by (auto simp: cmd_defs)
  have "\<not> bit (last_cmd c3) 7" unfolding s3 by (rule marker_bit(2))
  then show ?thesis
    using 1 2 3 s1 s2 s3 by (intro exI conjI)
qed

text \<open>
  Claim C7 on the example card: CMD55, CMD41 (dispatched as ACMD41), CMD13.
\<close>

theorem app_command_once_witness:
  "sd_wf card_example \<and> sdcard_file card_example = Some image_example \<and> selected card_example
   \<and> rxbuf_idx card_example = 0 \<and> \<not> is_acmd card_example
   \<and> (0x69 :: u8) AND 0xC0 = 0x40 \<and> (0x4D :: u8) AND 0xC0 = 0x40
   \<and> (\<exists>c1 o2 c2 o3 c3.
           sdcard_transfer [0x77, 0x00, 0x00, 0x00, 0x00, 0x65] card_example = Some (replicate 6 0xFF, c1)
           \<and> is_acmd c1
           \<and> sdcard_transfer (replicate 2 0xFF @ [0x69, 0x40, 0x00, 0x00, 0x00, 0x77]) c1 = Some (o2, c2)
           \<and> last_cmd c2 = ACMD41 \<and> \<not> is_acmd c2
           \<and> sdcard_transfer (replicate 2 0xFF @ [0x4D, 0x00, 0x00, 0x00, 0x00, 0x0D]) c2 = Some (o3, c3)
           \<and> last_cmd c3 = CMD13 \<and> \<not> bit (last_cmd c3) 7)"
proof -
  have x: "(0x69 :: u8) AND 0xC0 = 0x40" and y: "(0x4D :: u8) AND 0xC0 = 0x40" by simp_all
  have v: "((0x69 :: u8) AND 0x3F) OR 0x80 = ACMD41" "(0x4D :: u8) AND 0x3F = CMD13"
    by (simp_all add: cmd_defs)
  show ?thesis
    using app_command_once[OF card_example_ready x y, of "0x00" "0x00" "0x00" "0x00" "0x65"
        2 "0x40" "0x00" "0x00" "0x00" "0x77" 2 "0x00" "0x00" "0x00" "0x00" "0x0D"]
      card_example_ready x y
    unfolding v by blast
qed

text \<open>
  Claim C4. A CMD17 frame (first byte \<open>0x51\<close>, no application command pending) whose
  block address times 512 is not below the image size leaves the read-block response
  pending with second byte \<open>0x08\<close> and with the full length \<open>2 + 512 + 2 = 516\<close> of
  the data-block shape, not 2.
\<close>

theorem cmd17_out_of_range:
  assumes "sd_wf c" "sdcard_file c = Some f" "selected c" "rxbuf_idx c = 0" "\<not> is_acmd c"
    and "x16size f \<le> unat (frame_lba [0x51, a1, a2, a3, a4, crc]) * 512"
  shows "\<exists>c'. sdcard_transfer [0x51, a1, a2, a3, a4, crc] c = Some (replicate 6 0xFF, c')
            \<and> response c' = Read_block_response
            \<and> response_array c' (response c') ! 1 = 0x08
            \<and> response_length c' = 516 \<and> response_length c' \<noteq> 2
            \<and> response_counter c' = 0"
proof -
  have len: "length (read_block_response c) = 516" using assms(1) by (simp add: sd_wf_def)
  show ?thesis
    unfolding cmd17_out_of_range_state[OF assms]
    using len by simp
qed

text \<open>
  Claim C4 on the example card (1024 bytes), reading block 5.
\<close>

theorem cmd17_out_of_range_witness:
  "sd_wf card_example \<and> sdcard_file card_example = Some image_example \<and> selected card_example
   \<and> rxbuf_idx card_example = 0 \<and> \<not> is_acmd card_example
   \<and> x16size image_example \<le> unat (frame_lba [0x51, 0x00, 0x00, 0x00, 0x05, 0xFF]) * 512
   \<and> (\<exists>c'. sdcard_transfer [0x51, 0x00, 0x00, 0x00, 0x05, 0xFF] card_example
               = Some (replicate 6 0xFF, c')
            \<and> response c' = Read_block_response
            \<and> response_array c' (response c') ! 1 = 0x08
            \<and> response_length c' = 516 \<and> response_length c' \<noteq> 2
            \<and> response_counter c' = 0)"
proof -
  have lba: "x16size image_example \<le> unat (frame_lba [0x51, 0x00, 0x00, 0x00, 0x05, 0xFF]) * 512"
    by (simp add: frame_lba_def x16size_def image_example_def)
  show ?thesis
    using cmd17_out_of_range[OF card_example_ready lba] card_example_ready lba by blast
qed

text \<open>
  Claim C4, the length: on the example card (1024 bytes) a CMD17 for block 5 leaves a
  response of length 516, which is also the length of the array behind it; it is not 534.
\<close>

theorem cmd17_length_counterexample:
  "map_option (\<lambda>(outs, c'). (response_length c', length (response_array c' (response c'))))
     (sdcard_transfer [0x51, 0x00, 0x00, 0x00, 0x05, 0xFF] card_example) = Some (516, 516)"
  unfolding cmd17_out_of_range_state[OF card_example_ready image_example_block0(3)]
  by (simp add: card_example_buffer(2))

text \<open>
  Claim C10. An out-of-range CMD17 writes only bytes 0 and 1 of the 516-byte read-block
  response array (to \<open>0x00\<close> and \<open>0x08\<close>); bytes 2 to 515 keep their previous
  contents. The probes that follow return \<open>0x00\<close>, \<open>0x08\<close>, then the 514 stale bytes,
  and \<open>0xFF\<close> from the 517th probe on.
\<close>

theorem cmd17_out_of_range_stale:
  assumes "sd_wf c" "sdcard_file c = Some f" "selected c" "rxbuf_idx c = 0" "\<not> is_acmd c"
    and "x16size f \<le> unat (frame_lba [0x51, a1, a2, a3, a4, crc]) * 512"
  shows "\<exists>c' c''. sdcard_transfer [0x51, a1, a2, a3, a4, crc] c = Some (replicate 6 0xFF, c')
            \<and> length (read_block_response c') = 516
            \<and> read_block_response c' = (read_block_response c)[0 := 0x00, 1 := 0x08]
            \<and> (\<forall>i. 2 \<le> i \<and> i < 516 \<longrightarrow> read_block_response c' ! i = read_block_response c ! i)
            \<and> sdcard_transfer (replicate n 0xFF) c'
                 = Some (take n (0x00 # 0x08 # drop 2 (read_block_response c) @ replicate n 0xFF),
                         c'')"
proof -
  have len: "length (read_block_response c) = 516" using assms(1) by (simp add: sd_wf_def)
  obtain c' c'' where 1: "sdcard_transfer [0x51, a1, a2, a3, a4, crc] c = Some (replicate 6 0xFF, c')"
    and 2: "read_block_response c' = (read_block_response c)[0 := 0x00, 1 := 0x08]"
    and 3: "sdcard_transfer (replicate n 0xFF) c'
                 = Some (take n (0x00 # 0x08 # drop 2 (read_block_response c) @ replicate n 0xFF),
                         c'')"
    using cmd17_out_of_range_drain[OF assms, of n] by blast
  have 4: "length (read_block_response c') = 516" using 2 len by simp
  have 5: "\<forall>i. 2 \<le> i \<and> i < 516 \<longrightarrow> read_block_response c' ! i = read_block_response c ! i"
    using 2 by simp
  show ?thesis
    apply (rule exI[where x = c'])
    apply (rule exI[where x = c''])
    using 1 2 3 4 5 by simp
qed

text \<open>
  Claim C10 on the example card after block 0 (512 bytes \<open>0x11\<close>) has been read and
  its response drained: a CMD17 for block 5 then returns \<open>0x00\<close>, \<open>0x08\<close>, the 512
  bytes \<open>0x11\<close> of the earlier read and its two trailing bytes; probes 517 to 520
  return \<open>0xFF\<close>.
\<close>

theorem cmd17_out_of_range_stale_witness:
  "\<exists>c f c' c''.
      sdcard_transfer ([0x51, 0x00, 0x00, 0x00, 0x00, 0xFF] @ replicate 516 0xFF) card_example
        = Some (replicate 6 0xFF @ 0x00 # 0xFE # replicate 512 0x11 @ [0x00, 0x00], c)
    \<and> sd_wf c \<and> sdcard_file c = Some f \<and> selected c \<and> rxbuf_idx c = 0 \<and> \<not> is_acmd c
    \<and> x16size f \<le> unat (frame_lba [0x51, 0x00, 0x00, 0x00, 0x05, 0xFF]) * 512
    \<and> read_block_response c = 0x00 # 0xFE # replicate 512 0x11 @ [0x00, 0x00]
    \<and> sdcard_transfer [0x51, 0x00, 0x00, 0x00, 0x05, 0xFF] c = Some (replicate 6 0xFF, c')
    \<and> read_block_response c' = 0x00 # 0x08 # replicate 512 0x11 @ [0x00, 0x00]
    \<and> sdcard_transfer (replicate 520 0xFF) c'
        = Some (0x00 # 0x08 # replicate 512 0x11 @ [0x00, 0x00] @ replicate 4 0xFF, c'')"
proof -
  obtain c f where 1: "sdcard_transfer ([0x51, 0x00, 0x00, 0x00, 0x00, 0xFF] @ replicate 516 0xFF)
        card_example = Some (replicate 6 0xFF @ 0x00 # 0xFE # replicate 512 0x11 @ [0x00, 0x00], c)"
    and r: "sd_wf c" "sdcard_file c = Some f" "selected c" "rxbuf_idx c = 0" "\<not> is_acmd c"
    and sz: "x16size f = x16size image_example"
    and b: "read_block_response c = 0x00 # 0xFE # replicate 512 0x11 @ [0x00, 0x00]"
    using cmd17_in_range_drained[OF card_example_ready image_example_block0(1,2)]
    unfolding card_example_buffer(1) by auto
  have oor: "x16size f \<le> unat (frame_lba [0x51, 0x00, 0x00, 0x00, 0x05, 0xFF]) * 512"
    unfolding sz by (rule image_example_block0(3))
  have u: "(read_block_response c)[0 := 0x00, 1 := 0x08]
             = 0x00 # 0x08 # replicate 512 0x11 @ [0x00, 0x00]"
    unfolding b by simp
  have t: "take 520 (0x00 # 0x08 # drop 2 (read_block_response c) @ replicate 520 0xFF)
             = 0x00 # 0x08 # replicate 512 0x11 @ [0x00, 0x00] @ replicate 4 0xFF"
    unfolding b by (simp add: numeral_2_eq_2)
  obtain c' c'' where 2: "sdcard_transfer [0x51, 0x00, 0x00, 0x00, 0x05, 0xFF] c
       = Some (replicate 6 0xFF, c')"
    and 3: "read_block_response c' = 0x00 # 0x08 # replicate 512 0x11 @ [0x00, 0x00]"
    and 4: "sdcard_transfer (replicate 520 0xFF) c'
        = Some (0x00 # 0x08 # replicate 512 0x11 @ [0x00, 0x00] @ replicate 4 0xFF, c'')"
    using cmd17_out_of_range_stale[OF r oor, of 520] unfolding u t by blast
  show ?thesis
    apply (rule exI[where x = c])
    apply (rule exI[where x = f])
    apply (rule exI[where x = c'])
    apply (rule exI[where x = c''])
    using 1 r oor b 2 3 4 by (simp del: sdcard_transfer.simps)
qed

text \<open>
  Claim C10, the size of the buffer: on the example card, whose response array still
  has its initial contents, the array has 516 bytes after an out-of-range CMD17, and of
  534 probes the last 18 return \<open>0xFF\<close>, which is not in the array.
\<close>

theorem cmd17_stale_counterexample:
  "(\<exists>c' c''. sdcard_transfer [0x51, 0x00, 0x00, 0x00, 0x05, 0xFF] card_example
                = Some (replicate 6 0xFF, c')
      \<and> length (read_block_response c') = 516 \<and> response_length c' = 516
      \<and> sdcard_transfer (replicate 534 0xFF) c'
          = Some (0x00 # 0x08 # replicate 514 0x00 @ replicate 18 0xFF, c''))"
proof -
  have t: "take 534 (0x00 # 0x08 # drop 2 (read_block_response card_example) @ replicate 534 0xFF)
             = 0x00 # 0x08 # replicate 514 0x00 @ replicate 18 0xFF"
    unfolding card_example_buffer(2) by (simp add: numeral_2_eq_2)
  obtain c' c'' where 1: "sdcard_transfer [0x51, 0x00, 0x00, 0x00, 0x05, 0xFF] card_example
                = Some (replicate 6 0xFF, c')"
    and 2: "read_block_response c' = (read_block_response card_example)[0 := 0x00, 1 := 0x08]"
    and 3: "response_length c' = 516"
    and 4: "sdcard_transfer (replicate 534 0xFF) c'
          = Some (0x00 # 0x08 # replicate 514 0x00 @ replicate 18 0xFF, c'')"
    using cmd17_out_of_range_drain[OF card_example_ready image_example_block0(3), of 534]
    unfolding t by blast
  have 5: "length (read_block_response c') = 516"
    unfolding 2 card_example_buffer(2) by simp
  show ?thesis
    apply (rule exI[where x = c'])
    apply (rule exI[where x = c''])
    using 1 3 4 5 by (simp del: sdcard_transfer.simps)
qed

text \<open>
  Claim C6. On an image whose block at the given address is in range, a CMD24 frame,
  a 515-byte data frame (start token \<open>0xFE\<close>, 512 bytes of payload, two trailing
  bytes) and a CMD17 frame for the same address, with any number of probes in between,
  leave a read response of 516 bytes pending whose 512 data bytes are the payload; the
  516 probes that follow return \<open>0x00\<close>, \<open>0xFE\<close>, the payload and two trailing bytes.
\<close>

theorem write_read_roundtrip:
  assumes "sd_wf c" "sdcard_file c = Some f" "selected c" "rxbuf_idx c = 0" "\<not> is_acmd c"
    and "length payload = 512"
    and "unat (frame_lba [0x58, a1, a2, a3, a4, crc]) * 512 < x16size f"
  shows "\<exists>outs c' c''.
           sdcard_transfer ([0x58, a1, a2, a3, a4, crc] @ replicate n1 0xFF
                              @ (0xFE # payload @ [crc1, crc2]) @ replicate n2 0xFF
                              @ [0x51, a1, a2, a3, a4, crc']) c = Some (outs, c')
           \<and> response c' = Read_block_response \<and> response_length c' = 516
           \<and> response_counter c' = 0
           \<and> take 512 (drop 2 (response_array c' (response c'))) = payload
           \<and> sdcard_transfer (replicate 516 0xFF) c'
                = Some (0x00 # 0xFE # payload @ drop 514 (read_block_response c), c'')"
proof -
  let ?w = "[0x58, a1, a2, a3, a4, crc]" and ?r = "[0x51, a1, a2, a3, a4, crc']"
  let ?d = "0xFE # payload @ [crc1, crc2]"
  let ?off = "unat (frame_lba ?w) * 512"
  let ?f2 = "x16write (x16seek f ?off) payload"
  obtain c1 where 1: "sdcard_transfer ?w c = Some (replicate 6 0xFF, c1)"
    and r1: "sd_wf c1" "sdcard_file c1 = Some f" "selected c1" "rxbuf_idx c1 = 0"
    and s1: "\<not> is_acmd c1" "last_cmd c1 = CMD24" "lba c1 = frame_lba ?w"
      "read_block_response c1 = read_block_response c"
    using cmd24_step[OF assms(1-5), of a1 a2 a3 a4 crc] by blast
  obtain o2 k2 r2 where 2: "sdcard_transfer (replicate n1 0xFF) c1
      = Some (o2, c1\<lparr>response_counter := k2, response := r2\<rparr>)"
    using sdcard_transfer_probe_any[OF r1, of n1] by blast
  let ?c2 = "c1\<lparr>response_counter := k2, response := r2\<rparr>"
  have wf2: "sd_wf ?c2" using sdcard_transfer_wf[OF r1(1), of "replicate n1 0xFF"] 2 by simp
  obtain c3 where 3: "sdcard_transfer ?d ?c2 = Some (replicate 515 0xFF, c3)"
    and r3: "sd_wf c3" "sdcard_file c3 = Some ?f2" "selected c3" "rxbuf_idx c3 = 0"
    and s3: "\<not> is_acmd c3" "read_block_response c3 = read_block_response c"
    using data_step[OF wf2, of f payload crc1 crc2] r1 s1 assms(6,7) by auto
  obtain o4 k4 r4 where 4: "sdcard_transfer (replicate n2 0xFF) c3
      = Some (o4, c3\<lparr>response_counter := k4, response := r4\<rparr>)"
    using sdcard_transfer_probe_any[OF r3, of n2] by blast
  let ?c4 = "c3\<lparr>response_counter := k4, response := r4\<rparr>"
  have wf4: "sd_wf ?c4" using sdcard_transfer_wf[OF r3(1), of "replicate n2 0xFF"] 4 by simp
  have lr: "frame_lba ?r = frame_lba ?w" by (rule frame_lba_args)
  have rng: "unat (frame_lba ?r) * 512 < x16size ?f2"
    and rd: "fst (x16read (x16seek ?f2 (unat (frame_lba ?r) * 512)) 512) = payload"
    unfolding lr using x16write_then_read[OF assms(7), of payload 512] assms(6) by simp_all
  obtain c5 f5 where 5: "sdcard_transfer ?r ?c4 = Some (replicate 6 0xFF, c5)"
    and r5: "sd_wf c5" "sdcard_file c5 = Some f5" "selected c5" "rxbuf_idx c5 = 0"
    and s5: "response c5 = Read_block_response" "response_length c5 = 516"
      "response_counter c5 = 0"
      "read_block_response c5 = 0x00 # 0xFE # payload @ drop 514 (read_block_response c)"
    using cmd17_in_range_step[OF wf4 _ _ _ _ rng rd assms(6)] r3 s3 by auto
  have all: "sdcard_transfer (?w @ replicate n1 0xFF @ ?d @ replicate n2 0xFF @ ?r) c
      = Some (replicate 6 0xFF @ o2 @ replicate 515 0xFF @ o4 @ replicate 6 0xFF, c5)"
    by (intro sdcard_transfer_seq[OF 1] sdcard_transfer_seq[OF 2] sdcard_transfer_seq[OF 3]
          sdcard_transfer_seq[OF 4] 5)
  have pr: "sdcard_transfer (replicate 516 0xFF) c5 =
           Some (take 516 (response_array c5 (response c5) @ replicate 516 0xFF),
                 c5\<lparr>response_counter := min 516 (response_length c5),
                   response := (if response_length c5 \<le> 516 then Nullptr else response c5)\<rparr>)"
    using r5 s5 by (intro sdcard_transfer_probe[where f = f5]) simp_all
  have l5: "length (read_block_response c5) = 516" using r5(1) by (simp add: sd_wf_def)
  have arr: "take 516 (response_array c5 (response c5) @ replicate 516 0xFF)
               = 0x00 # 0xFE # payload @ drop 514 (read_block_response c)"
    using l5 s5 by simp
  have dat: "take 512 (drop 2 (response_array c5 (response c5))) = payload"
    using s5 assms(6) by simp
  show ?thesis
    using all s5(1-3) dat pr arr by (intro exI conjI) simp_all
qed

text \<open>
  Claim C6 on the example card: block 1, payload of 512 bytes \<open>0xA5\<close>.
\<close>

theorem write_read_roundtrip_witness:
  "sd_wf card_example \<and> sdcard_file card_example = Some image_example \<and> selected card_example
   \<and> rxbuf_idx card_example = 0 \<and> \<not> is_acmd card_example
   \<and> length (replicate 512 (0xA5 :: u8)) = 512
   \<and> unat (frame_lba [0x58, 0x00, 0x00, 0x00, 0x01, 0xFF]) * 512 < x16size image_example
   \<and> (\<exists>outs c' c''.
           sdcard_transfer ([0x58, 0x00, 0x00, 0x00, 0x01, 0xFF] @ replicate 2 0xFF
                              @ (0xFE # replicate 512 0xA5 @ [0x00, 0x00]) @ replicate 1 0xFF
                              @ [0x51, 0x00, 0x00, 0x00, 0x01, 0xFF]) card_example = Some (outs, c')
           \<and> response c' = Read_block_response \<and> response_length c' = 516
           \<and> response_counter c' = 0
           \<and> take 512 (drop 2 (response_array c' (response c'))) = replicate 512 0xA5
           \<and> sdcard_transfer (replicate 516 0xFF) c'
                = Some (0x00 # 0xFE # replicate 512 0xA5 @ drop 514 (read_block_response card_example), c''))"
proof -
  have l: "length (replicate 512 (0xA5 :: u8)) = 512" by simp
  have r: "unat (frame_lba [0x58, 0x00, 0x00, 0x00, 0x01, 0xFF]) * 512 < x16size image_example"
    by (simp add: frame_lba_def x16size_def image_example_def)
  show ?thesis
    using write_read_roundtrip[OF card_example_ready l r, of 2 "0x00" "0x00" 1 "0xFF"]
      card_example_ready l r
    by blast
qed

text \<open>
  Claim C5. For a transfer that has just been started (\<open>busy\<close> set, tick counter 0)
  and any run of \<^verbatim>\<open>vera_spi_step\<close> calls with non-negative ticks: \<open>busy\<close> holds after
  the run exactly if fewer than 8 ticks have accumulated, in which case nothing but the
  tick counter has changed. Once 8 ticks have accumulated, the state after the run is
  the state after the first call \<open>k\<close> at which the sum reaches 8: the outgoing byte has
  been handed to the card once, \<open>received_byte\<close> is the byte the card returned, the card
  is as that one call of \<^verbatim>\<open>sdcard_handle\<close> left it, and the tick counter has stopped at
  the sum up to call \<open>k\<close>; the calls that follow, also calls with 0 ticks, change
  nothing. The number of calls in the run that clear \<open>busy\<close> is 0 below 8 ticks and 1
  from then on.
\<close>

theorem transfer_timing:
  assumes "busy s" "outcounter s = 0" "sd_wf (sd_card s)"
    and "\<forall>n \<in> set ticks. 0 \<le> n \<and> n \<le> 2147483640"
  shows "\<exists>s'. vera_spi_steps ticks s = Some s'
           \<and> busy s' = (sum_list ticks < 8)
           \<and> (sum_list ticks < 8 \<longrightarrow> s' = s\<lparr>outcounter := sum_list ticks\<rparr>)
           \<and> (8 \<le> sum_list ticks \<longrightarrow>
                (\<exists>k b c'. k < length ticks \<and> sum_list (take k ticks) < 8
                   \<and> 8 \<le> sum_list (take (Suc k) ticks)
                   \<and> deliver s = Some (b, c')
                   \<and> s' = s\<lparr>outcounter := sum_list (take (Suc k) ticks), busy := False,
                             received_byte := b, sd_card := c'\<rparr>))
           \<and> completions ticks s = (if sum_list ticks < 8 then 0 else 1)"
proof -
  obtain s' where a: "vera_spi_steps ticks s = Some s'" "busy s' = (sum_list ticks < 8)"
    "sum_list ticks < 8 \<longrightarrow> s' = s\<lparr>outcounter := sum_list ticks\<rparr>"
    "completions ticks s = (if sum_list ticks < 8 then 0 else 1)"
    using transfer_timing_aux[OF assms(1) _ _ assms(3,4)] assms(2) by auto
  have "\<exists>k b c'. k < length ticks \<and> sum_list (take k ticks) < 8
                   \<and> 8 \<le> sum_list (take (Suc k) ticks)
                   \<and> deliver s = Some (b, c')
                   \<and> s' = s\<lparr>outcounter := sum_list (take (Suc k) ticks), busy := False,
                             received_byte := b, sd_card := c'\<rparr>" if "8 \<le> sum_list ticks"
    using transfer_timing_aux2[OF assms(1) _ _ assms(3,4)] assms(2) that a(1) by auto
  then show ?thesis using a by (intro exI[where x = s']) simp
qed

text \<open>
  Claim C5 on the example registers, sending \<open>0x40\<close>: after ticks 3, 4, 0 the transfer
  is still busy with 7 ticks counted; the fourth call of 3, 4, 0, 1, 0, 5 completes it,
  the card has buffered \<open>0x40\<close> once (cursor 1) and the last two calls change nothing.
\<close>

theorem transfer_timing_witness:
  "busy spi_started \<and> outcounter spi_started = 0 \<and> sd_wf (sd_card spi_started)
   \<and> list_all (\<lambda>n. (0::int) \<le> n \<and> n \<le> 2147483640) [3, 4, 0, 1, 0, 5]
   \<and> vera_spi_steps [3, 4, 0, 1, 0, 5] spi_started
        = Some (spi_started\<lparr>outcounter := 8, busy := False, received_byte := 0xFF,
                  sd_card := card_example\<lparr>rxbuf := (rxbuf card_example)[0 := 0x40],
                                            rxbuf_idx := 1\<rparr>\<rparr>)
   \<and> completions [3, 4, 0, 1, 0, 5] spi_started = 1
   \<and> vera_spi_steps [3, 4, 0] spi_started = Some (spi_started\<lparr>outcounter := 7\<rparr>)
   \<and> completions [3, 4, 0] spi_started = 0"
proof -
  let ?t = "[3, 4, 0, 1, 0, 5] :: int list"
  have t: "\<forall>n \<in> set ?t. 0 \<le> n \<and> n \<le> 2147483640"
    and t': "\<forall>n \<in> set [3, 4, 0]. (0::int) \<le> n \<and> n \<le> 2147483640" by simp_all
  have h: "busy spi_started" "outcounter spi_started = 0" "sd_wf (sd_card spi_started)"
    by (simp_all add: spi_started_simps spi_started_wf[unfolded spi_started_simps])
  obtain s' k b c' where r: "vera_spi_steps ?t spi_started = Some s'"
    "completions ?t spi_started = 1"
    "k < length ?t" "sum_list (take k ?t) < 8" "8 \<le> sum_list (take (Suc k) ?t)"
    "deliver spi_started = Some (b, c')"
    "s' = spi_started\<lparr>outcounter := sum_list (take (Suc k) ?t), busy := False,
                        received_byte := b, sd_card := c'\<rparr>"
    using transfer_timing[OF h t] by auto
  have "k = 0 \<or> k = 1 \<or> k = 2 \<or> k = 3 \<or> k = 4 \<or> k = 5" using r(3) by auto
  then have k: "k = 3" using r(4,5) by (elim disjE) simp_all
  have full: "vera_spi_steps ?t spi_started
        = Some (spi_started\<lparr>outcounter := 8, busy := False, received_byte := 0xFF,
                  sd_card := card_example\<lparr>rxbuf := (rxbuf card_example)[0 := 0x40],
                                            rxbuf_idx := 1\<rparr>\<rparr>)"
    using r(1,6,7) k deliver_spi_started by (simp del: vera_spi_steps.simps)
  obtain s'' where p: "vera_spi_steps [3, 4, 0] spi_started = Some s''"
    "completions [3, 4, 0] spi_started = 0" "s'' = spi_started\<lparr>outcounter := 7\<rparr>"
    using transfer_timing[OF h t'] by auto
  show ?thesis
    using full r(2) p h by (simp del: vera_spi_steps.simps completions.simps)
qed

text \<open>
  Claim C9. \<^verbatim>\<open>vera_spi_write\<close> first advances time (\<^verbatim>\<open>vera_spi_autostep\<close>) and then
  tests \<open>busy\<close>. A write to register 0 that finds \<open>busy\<close> set at this test does
  nothing beyond that advance of time: the outgoing byte is the one of before, the
  transfer is still busy, and when no time has passed since the last access the whole
  state is unchanged.
\<close>

theorem write_while_busy:
  assumes "vera_spi_autostep now s = Some s1" "busy s1"
  shows "vera_spi_write 0 v now s = Some s1
         \<and> sending_byte s1 = sending_byte s \<and> busy s
         \<and> (now = clocks s \<longrightarrow> s1 = s)"
proof -
  have w: "vera_spi_write 0 v now s = Some s1"
    using assms by (simp add: vera_spi_write_def)
  have still: "now = clocks s \<Longrightarrow> s1 = s"
    using assms
    by (auto simp: vera_spi_autostep_def vera_spi_step_def Let_def
        split: option.splits if_splits prod.splits)
  show ?thesis
    using w still vera_spi_autostep_keeps(1,5)[OF assms(1)] assms(2) by simp
qed

text \<open>
  Claim C9 on the example registers while \<open>0x40\<close> is being sent: a write of \<open>0x55\<close>
  three ticks later only counts the ticks, one at the same tick changes nothing.
\<close>

theorem write_while_busy_witness:
  "vera_spi_autostep 3 spi_started = Some (spi_started\<lparr>outcounter := 3, clocks := 3\<rparr>)
   \<and> busy (spi_started\<lparr>outcounter := 3, clocks := 3\<rparr>)
   \<and> ss spi_started
   \<and> vera_spi_write 0 0x55 3 spi_started = Some (spi_started\<lparr>outcounter := 3, clocks := 3\<rparr>)
   \<and> sending_byte (spi_started\<lparr>outcounter := 3, clocks := 3\<rparr>) = 0x40
   \<and> vera_spi_autostep 0 spi_started = Some spi_started
   \<and> vera_spi_write 0 0x55 0 spi_started = Some spi_started"
proof -
  have a: "vera_spi_autostep 3 spi_started = Some (spi_started\<lparr>outcounter := 3, clocks := 3\<rparr>)"
    using vera_spi_autostep_wait[of spi_started 3]
    by (simp add: spi_started_simps ticks_since_def int_range_def)
  have b: "busy (spi_started\<lparr>outcounter := 3, clocks := 3\<rparr>)"
    by (simp add: spi_started_simps)
  have "spi_started\<lparr>outcounter := 0, clocks := 0\<rparr> = spi_started"
    using spi_started_simps(2,3) by (metis vera_spi.surjective vera_spi.update_convs(6,7) vera_spi.select_convs(6,7))
  then have c: "vera_spi_autostep 0 spi_started = Some spi_started"
    using vera_spi_autostep_wait[of spi_started 0]
    by (simp add: spi_started_simps ticks_since_def int_range_def)
  show ?thesis
    using write_while_busy[OF a b, of "0x55"] write_while_busy[OF c spi_started_simps(1), of "0x55"]
      a b c
    by (simp add: spi_started_simps)
qed




end
